theory Spec2Isabelle
  imports Complex_Main "HOL-Library.Sublist" "HOL-Library.AList"
begin

section \<open>JavaScript string primitives\<close>

text \<open>
  A JavaScript string is modelled as a \<^typ>\<open>string\<close>: a list of code units below 256.
  The helpers below follow the ECMAScript definitions of \<^verbatim>\<open>trim\<close>, \<^verbatim>\<open>startsWith\<close>,
  \<^verbatim>\<open>split\<close>, \<^verbatim>\<open>toLowerCase\<close> and of the three \<^verbatim>\<open>replace\<close> calls of
  \<^verbatim>\<open>normalizePattern\<close> on that range.
\<close>

definition isWhiteSpace :: "char \<Rightarrow> bool" where
  \<comment> \<open>WhiteSpace and LineTerminator code points below 256: TAB, LF, VT, FF, CR, SP, NBSP.\<close>
  "isWhiteSpace c = ((of_char c :: nat) \<in> {9, 10, 11, 12, 13, 32, 160})"

definition trim :: "string \<Rightarrow> string" where
  "trim s = rev (dropWhile isWhiteSpace (rev (dropWhile isWhiteSpace s)))"

definition startsWith :: "string \<Rightarrow> string \<Rightarrow> bool" where
  \<comment> \<open>\<^verbatim>\<open>s.startsWith(p)\<close>\<close>
  "startsWith s p = (take (length p) s = p)"

definition backslashToSlash :: "string \<Rightarrow> string" where
  \<comment> \<open>\<^verbatim>\<open>.replace(/\\/g, '/')\<close>: every backslash (code 92) becomes a slash.\<close>
  "backslashToSlash s = map (\<lambda>c. if c = CHR 0x5C then CHR ''/'' else c) s"

definition removeLeading :: "string \<Rightarrow> string" where
  \<comment> \<open>\<^verbatim>\<open>.replace(/^\.\/|^\//, '')\<close>: one leading "./", else one leading "/".\<close>
  "removeLeading s =
     (if startsWith s ''./'' then drop 2 s
      else if startsWith s ''/'' then drop 1 s
      else s)"

definition removeTrailingSlash :: "string \<Rightarrow> string" where
  \<comment> \<open>\<^verbatim>\<open>.replace(/\/$/, '')\<close>: one trailing "/".\<close>
  "removeTrailingSlash s = (if s \<noteq> [] \<and> last s = CHR ''/'' then butlast s else s)"

fun split :: "char \<Rightarrow> string \<Rightarrow> string list" where
  \<comment> \<open>\<^verbatim>\<open>s.split(sep)\<close> for a one-character separator; the result is never empty.\<close>
  "split sep [] = [[]]"
| "split sep (c # cs) =
     (if c = sep then [] # split sep cs
      else (case split sep cs of
              [] \<Rightarrow> [[c]]
            | w # ws \<Rightarrow> (c # w) # ws))"

definition pop :: "'a list \<Rightarrow> 'a option" where
  \<comment> \<open>\<^verbatim>\<open>Array.prototype.pop\<close>: the last element, \<^verbatim>\<open>undefined\<close> on an empty array.\<close>
  "pop xs = (if xs = [] then None else Some (last xs))"

definition lowerChar :: "char \<Rightarrow> char" where
  \<comment> \<open>Upper-case letters below 256: A-Z, and U+00C0..U+00DE except U+00D7.\<close>
  "lowerChar c =
     (let n = (of_char c :: nat)
      in if (65 \<le> n \<and> n \<le> 90) \<or> (192 \<le> n \<and> n \<le> 222 \<and> n \<noteq> 215)
         then char_of (n + 32) else c)"

definition toLowerCase :: "string \<Rightarrow> string" where
  "toLowerCase s = map lowerChar s"

section \<open>The pattern matcher (src/utils/ignore.ts)\<close>

subsection \<open>Options\<close>

text \<open>
  \<^verbatim>\<open>IgnoreOptions\<close> has only optional fields; an absent field is \<open>None\<close>.
  \<^verbatim>\<open>Required<IgnoreOptions>\<close> is the same shape with every field present.
\<close>

record IgnoreOptions =
  ignoreCase :: "bool option"
  allowNegation :: "bool option"
  useGitignore :: "bool option"
  extraPatterns :: "string list option"
  customIgnoreFile :: "string option"

definition DEFAULT_IGNORE_OPTIONS :: IgnoreOptions where
  "DEFAULT_IGNORE_OPTIONS =
     \<lparr> ignoreCase = Some True, allowNegation = Some True, useGitignore = Some True,
       extraPatterns = Some [], customIgnoreFile = Some ''.docsignore'' \<rparr>"

definition noOptions :: IgnoreOptions where
  \<comment> \<open>The default argument \<^verbatim>\<open>options = {}\<close>.\<close>
  "noOptions =
     \<lparr> ignoreCase = None, allowNegation = None, useGitignore = None,
       extraPatterns = None, customIgnoreFile = None \<rparr>"

definition orDefault :: "'a option \<Rightarrow> 'a option \<Rightarrow> 'a option" where
  \<comment> \<open>One field of the spread \<^verbatim>\<open>{ ...defaults, ...options }\<close>.\<close>
  "orDefault given dflt = (case given of None \<Rightarrow> dflt | Some v \<Rightarrow> Some v)"

definition mergeOptions :: "IgnoreOptions \<Rightarrow> IgnoreOptions" where
  "mergeOptions opts =
     \<lparr> ignoreCase = orDefault (ignoreCase opts) (ignoreCase DEFAULT_IGNORE_OPTIONS),
       allowNegation = orDefault (allowNegation opts) (allowNegation DEFAULT_IGNORE_OPTIONS),
       useGitignore = orDefault (useGitignore opts) (useGitignore DEFAULT_IGNORE_OPTIONS),
       extraPatterns = orDefault (extraPatterns opts) (extraPatterns DEFAULT_IGNORE_OPTIONS),
       customIgnoreFile =
         orDefault (customIgnoreFile opts) (customIgnoreFile DEFAULT_IGNORE_OPTIONS) \<rparr>"

definition truthy :: "bool option \<Rightarrow> bool" where
  \<comment> \<open>A boolean field in a condition: \<^verbatim>\<open>undefined\<close> and \<^verbatim>\<open>false\<close> are falsy.\<close>
  "truthy b = (b = Some True)"

subsection \<open>Rules and the matcher object\<close>

text \<open>
  \<^verbatim>\<open>globToRegExp\<close> belongs to the Deno standard library, not to this repository. A
  compiled pattern is represented by the arguments it was compiled from, and the
  relation \<open>rx\<close> ("the compiled expression accepts this string", \<^verbatim>\<open>RegExp.test\<close>) is
  a parameter of every function that tests a path.
\<close>

record RegExp =
  glob :: string
  caseInsensitive :: "bool option"

definition globToRegExp :: "string \<Rightarrow> bool option \<Rightarrow> RegExp" where
  "globToRegExp g ci = \<lparr> glob = g, caseInsensitive = ci \<rparr>"

record IgnoreRule =
  compiledPattern :: RegExp
  isNegation :: bool

record Normalized =
  pattern :: string
  negative :: bool

record IgnorePattern =
  patterns :: "IgnoreRule list"
  options :: IgnoreOptions

definition newIgnorePattern :: "IgnoreOptions \<Rightarrow> IgnorePattern" where
  \<comment> \<open>The constructor.\<close>
  "newIgnorePattern opts = \<lparr> patterns = [], options = mergeOptions opts \<rparr>"

definition normalizePattern :: "IgnoreOptions \<Rightarrow> string \<Rightarrow> Normalized" where
  "normalizePattern opts p =
     (let neg = (truthy (allowNegation opts) \<and> startsWith p ''!'');
          p1 = (if neg then drop 1 p else p)
      in \<lparr> pattern = removeTrailingSlash (removeLeading (backslashToSlash (trim p1))),
           negative = neg \<rparr>)"

definition addPattern :: "IgnorePattern \<Rightarrow> string \<Rightarrow> IgnorePattern" where
  "addPattern ip p =
     (let n = normalizePattern (options ip) p
      in if pattern n = [] then ip
         else ip \<lparr> patterns := patterns ip @
                [\<lparr> compiledPattern = globToRegExp (pattern n) (ignoreCase (options ip)),
                   isNegation = negative n \<rparr>] \<rparr>)"

definition addPatterns :: "IgnorePattern \<Rightarrow> string list \<Rightarrow> IgnorePattern" where
  \<comment> \<open>\<^verbatim>\<open>patterns.forEach(pattern => this.addPattern(pattern))\<close>\<close>
  "addPatterns ip ps = foldl addPattern ip ps"

definition shouldIgnore :: "(RegExp \<Rightarrow> string \<Rightarrow> bool) \<Rightarrow> IgnorePattern \<Rightarrow> string \<Rightarrow> bool" where
  "shouldIgnore rx ip path =
     (let normalizedPath = pattern (normalizePattern (options ip) path)
      in foldl (\<lambda>ignored r. if rx (compiledPattern r) normalizedPath
                             then \<not> isNegation r else ignored)
               False (patterns ip))"

subsection \<open>Loading the ignore files\<close>

datatype js_error =
    NotFound string      \<comment> \<open>an instance of \<^verbatim>\<open>Deno.errors.NotFound\<close>, with its message\<close>
  | OtherError string    \<comment> \<open>any other \<^verbatim>\<open>Error\<close>, with its message\<close>

fun errorMessage :: "js_error \<Rightarrow> string" where
  \<comment> \<open>\<^verbatim>\<open>error.message\<close>\<close>
  "errorMessage (NotFound m) = m"
| "errorMessage (OtherError m) = m"

definition ignoreLines :: "string \<Rightarrow> string list" where
  \<comment> \<open>\<^verbatim>\<open>content.split('\n').map(line => line.trim()).filter(line => line && !line.startsWith('#'))\<close>\<close>
  "ignoreLines content =
     filter (\<lambda>line. line \<noteq> [] \<and> \<not> startsWith line ''#'')
            (map trim (split (CHR 0x0A) content))"

definition loadFromFile ::
  "(string \<Rightarrow> js_error + string) \<Rightarrow> string \<Rightarrow> IgnoreOptions \<Rightarrow> IgnorePattern" where
  \<comment> \<open>\<open>readTextFile\<close> is \<^verbatim>\<open>Deno.readTextFile\<close>: \<open>Inl\<close> when it throws. Both \<^verbatim>\<open>catch\<close>
      blocks are empty, so every throw ends in the value built so far. The two
      conditions read the caller's \<^verbatim>\<open>options\<close>, not the merged \<^verbatim>\<open>this.options\<close>.\<close>
  "loadFromFile readTextFile path opts =
     (let ignore0 = newIgnorePattern opts;
          ignore1 = (case extraPatterns opts of
                       None \<Rightarrow> ignore0
                     | Some extra \<Rightarrow> addPatterns ignore0 extra)
      in case readTextFile path of
           Inl e \<Rightarrow> ignore1
         | Inr content \<Rightarrow>
             (let ignore2 = addPatterns ignore1 (ignoreLines content)
              in if truthy (useGitignore opts)
                 then (case readTextFile ''.gitignore'' of
                         Inl e \<Rightarrow> ignore2
                       | Inr gitignore \<Rightarrow> addPatterns ignore2 (ignoreLines gitignore))
                 else ignore2))"

section \<open>The tree scanner (scanner.ts) and \<^verbatim>\<open>IgnorePattern.filterFiles\<close>\<close>

text \<open>
  \<^verbatim>\<open>walk\<close>, \<^verbatim>\<open>relative\<close> and \<^verbatim>\<open>Deno.stat\<close> are runtime primitives: the scanner is
  modelled on the list of entries that the walk delivers, each with the relative path
  and the size the runtime reports for it (\<open>Inl\<close> when \<^verbatim>\<open>Deno.stat\<close> throws).
\<close>

record WalkEntry =
  entryName :: string
  entryPath :: string
  entryRelative :: string
  entryStat :: "js_error + nat"    \<comment> \<open>\<^verbatim>\<open>(await Deno.stat(entry.path)).size\<close>\<close>

record ScannedFile =
  scannedPath :: string
  relativePath :: string
  sizeBytes :: nat
  extension :: string

definition extensionOf :: "string \<Rightarrow> string" where
  \<comment> \<open>\<^verbatim>\<open>entry.name.split('.').pop()?.toLowerCase() || ''\<close>\<close>
  "extensionOf name =
     (case pop (split CHR ''.'' name) of
        None \<Rightarrow> []
      | Some e \<Rightarrow> (let l = toLowerCase e in if l = [] then [] else l))"

fun scanLoop ::
  "(RegExp \<Rightarrow> string \<Rightarrow> bool) \<Rightarrow> IgnorePattern \<Rightarrow> string list \<Rightarrow> WalkEntry list \<Rightarrow>
   ScannedFile list \<Rightarrow> js_error + ScannedFile list" where
  "scanLoop rx ip extensions [] files = Inr files"
| "scanLoop rx ip extensions (entry # rest) files =
     (if shouldIgnore rx ip (entryRelative entry) then scanLoop rx ip extensions rest files
      else (let ext = extensionOf (entryName entry)
            in if length extensions > 0 \<and> ext \<notin> set extensions
               then scanLoop rx ip extensions rest files
               else (case entryStat entry of
                       Inl e \<Rightarrow> Inl e
                     | Inr sz \<Rightarrow>
                         scanLoop rx ip extensions rest
                           (files @ [\<lparr> scannedPath = entryPath entry,
                                       relativePath = entryRelative entry,
                                       sizeBytes = sz, extension = ext \<rparr>]))))"

definition scanDirectory ::
  "(RegExp \<Rightarrow> string \<Rightarrow> bool) \<Rightarrow> (string \<Rightarrow> js_error + string) \<Rightarrow> WalkEntry list \<Rightarrow>
   string list \<Rightarrow> string \<Rightarrow> js_error + ScannedFile list" where
  \<comment> \<open>\<open>extensions\<close> and \<open>ignorePath\<close> are the destructured options (defaults \<open>[]\<close> and
      ".docsignore"); \<open>entries\<close> is what \<^verbatim>\<open>walk(baseDir, ...)\<close> yields.\<close>
  "scanDirectory rx readTextFile entries extensions ignorePath =
     scanLoop rx (loadFromFile readTextFile ignorePath noOptions) extensions entries []"

fun filterLoop ::
  "(RegExp \<Rightarrow> string \<Rightarrow> bool) \<Rightarrow> IgnorePattern \<Rightarrow> string list \<Rightarrow> WalkEntry list \<Rightarrow>
   string list \<Rightarrow> string list" where
  "filterLoop rx ip extensions [] files = files"
| "filterLoop rx ip extensions (entry # rest) files =
     (if shouldIgnore rx ip (entryRelative entry) then filterLoop rx ip extensions rest files
      else if length extensions > 0 \<and> extensionOf (entryName entry) \<notin> set extensions
           then filterLoop rx ip extensions rest files
      else filterLoop rx ip extensions rest (files @ [entryPath entry]))"

definition filterFiles ::
  "(RegExp \<Rightarrow> string \<Rightarrow> bool) \<Rightarrow> IgnorePattern \<Rightarrow> WalkEntry list \<Rightarrow> string list \<Rightarrow> string list" where
  "filterFiles rx ip entries extensions = filterLoop rx ip extensions entries []"

section \<open>The bounded file processor (processor.ts)\<close>

subsection \<open>Data\<close>

record ProcessOptions =
  maxConcurrent :: int
  chunkSize :: int
  maxRetries :: int
  retryDelay :: int
  timeout :: int
  skipLargeFiles :: bool
  maxFileSize :: int
  progressInterval :: int

definition DEFAULT_OPTIONS :: ProcessOptions where
  "DEFAULT_OPTIONS =
     \<lparr> maxConcurrent = 5, chunkSize = 1024 * 1024, maxRetries = 3, retryDelay = 1000,
       timeout = 30000, skipLargeFiles = True, maxFileSize = 10 * 1024 * 1024,
       progressInterval = 1000 \<rparr>"

record ProcessStats =
  processed :: nat
  failed :: nat
  skipped :: nat
  totalSize :: nat
  startTime :: int
  endTime :: "int option"

record FileError =
  name :: string
  message :: string
  filePath :: string
  retryCount :: nat
  cause :: "js_error option"

datatype js_number = Finite rat | Infinity | NaN

record FileProgress =
  progressPath :: string
  bytesRead :: nat
  totalBytes :: nat
  percentage :: js_number

record ProcessResult =
  path :: string
  content :: string

datatype UpdateType = TypeStart | TypeProgress | TypeComplete | TypeError | TypeSkip

datatype UpdateData =
    DataContent string
  | DataError FileError
  | DataProgress FileProgress
  | DataReason string

record ProcessUpdate =
  updateType :: UpdateType
  updatePath :: string
  updateData :: "UpdateData option"

text \<open>
  The processor object: its merged options, its statistics, the messages posted so
  far on its \<^verbatim>\<open>BroadcastChannel\<close>, and whether that channel has been closed. The
  constructor is the only place that opens the channel; the \<^verbatim>\<open>finally\<close> block of
  \<^verbatim>\<open>processFiles\<close> closes it.
\<close>

record FileProcessor =
  opts :: ProcessOptions
  stats :: ProcessStats
  updateChannel :: "ProcessUpdate list"
  channelClosed :: bool

definition initStats :: "int \<Rightarrow> ProcessStats" where
  \<comment> \<open>\<open>now\<close> is the value of \<^verbatim>\<open>Date.now()\<close>.\<close>
  "initStats now =
     \<lparr> processed = 0, failed = 0, skipped = 0, totalSize = 0, startTime = now,
       endTime = None \<rparr>"

definition newFileProcessor :: "ProcessOptions \<Rightarrow> int \<Rightarrow> FileProcessor" where
  \<comment> \<open>The constructor, given the merged options.\<close>
  "newFileProcessor os now =
     \<lparr> opts = os, stats = initStats now, updateChannel = [], channelClosed = False \<rparr>"

definition channelClosedError :: js_error where
  \<comment> \<open>The \<^verbatim>\<open>InvalidStateError\<close> exception that \<^verbatim>\<open>postMessage\<close> throws on a closed
      \<^verbatim>\<open>BroadcastChannel\<close>; the message is the runtime's.\<close>
  "channelClosedError = OtherError ''Already closed''"

definition sendUpdate :: "FileProcessor \<Rightarrow> ProcessUpdate \<Rightarrow> js_error + FileProcessor" where
  \<comment> \<open>\<^verbatim>\<open>this.updateChannel.postMessage(update)\<close>: \<open>Inl\<close> is the exception it throws.\<close>
  "sendUpdate fp u =
     (if channelClosed fp then Inl channelClosedError
      else Inr (fp \<lparr> updateChannel := updateChannel fp @ [u] \<rparr>))"

definition getStats :: "FileProcessor \<Rightarrow> ProcessStats" where
  "getStats fp = stats fp"

subsection \<open>What the runtime delivers to one attempt\<close>

text \<open>
  \<^verbatim>\<open>Deno.stat\<close>, \<^verbatim>\<open>Deno.open\<close>, \<^verbatim>\<open>file.read\<close>, \<^verbatim>\<open>Date.now\<close> and the timer behind the
  \<^verbatim>\<open>AbortSignal\<close> are inputs: an \<open>AttemptEnv\<close> lists what they return during one pass
  through the \<^verbatim>\<open>try\<close> block of \<^verbatim>\<open>processFileWithRetry\<close>. A \<open>World\<close> gives the
  environment of every attempt on every path.

  The reads of one attempt are a finite list followed by the read that returns \<^verbatim>\<open>null\<close>;
  \<^verbatim>\<open>chunkSize\<close> only sizes the buffer, so it bounds the chunks that the runtime delivers and
  does not occur in the functions below. Whether the timer of \<^verbatim>\<open>timeout\<close> milliseconds
  has fired when the loop tests \<^verbatim>\<open>signal.aborted\<close> is decided by the runtime, and is given
  for each test.
\<close>

datatype StatResult =
    StatThrows js_error
  | StatInfo bool nat      \<comment> \<open>\<^verbatim>\<open>stat.isFile\<close> and \<^verbatim>\<open>stat.size\<close>\<close>

datatype ReadResult =
    ReadThrows js_error
  | ReadChunk nat string   \<comment> \<open>the number of bytes read and their decoded text\<close>

record ReadStep =
  abortedBefore :: bool    \<comment> \<open>\<^verbatim>\<open>signal.aborted\<close> at the top of this iteration\<close>
  readResult :: ReadResult \<comment> \<open>what \<^verbatim>\<open>file.read(buffer)\<close> delivers (not \<^verbatim>\<open>null\<close>)\<close>
  nowAfter :: int          \<comment> \<open>\<^verbatim>\<open>Date.now()\<close> after the chunk\<close>

record OpenFile =
  statSize :: nat              \<comment> \<open>\<^verbatim>\<open>(await file.stat()).size\<close>\<close>
  openedAt :: int              \<comment> \<open>\<^verbatim>\<open>Date.now()\<close> that initialises \<^verbatim>\<open>lastProgress\<close>\<close>
  reads :: "ReadStep list"     \<comment> \<open>the reads that deliver data, in order\<close>
  abortedAtEnd :: bool         \<comment> \<open>\<^verbatim>\<open>signal.aborted\<close> before the read that returns \<^verbatim>\<open>null\<close>\<close>

datatype OpenResult =
    OpenThrows js_error
  | Opened OpenFile

record AttemptEnv =
  statResult :: StatResult     \<comment> \<open>\<^verbatim>\<open>Deno.stat(path)\<close> in \<^verbatim>\<open>validateFile\<close>\<close>
  openResult :: OpenResult     \<comment> \<open>\<^verbatim>\<open>Deno.open(path)\<close> and what follows it\<close>
  duration :: int              \<comment> \<open>milliseconds that the attempt takes\<close>

type_synonym World = "string \<Rightarrow> nat \<Rightarrow> AttemptEnv"

subsection \<open>One attempt\<close>

fun showNat :: "nat \<Rightarrow> string" where
  \<comment> \<open>The decimal digits of a number in a template string.\<close>
  "showNat n =
     (if n < 10 then [char_of (48 + n)]
      else showNat (n div 10) @ [char_of (48 + n mod 10)])"

declare showNat.simps [simp del]

definition validateFile :: "ProcessOptions \<Rightarrow> AttemptEnv \<Rightarrow> string \<Rightarrow> js_error + unit" where
  "validateFile os env p =
     (case statResult env of
        StatThrows e \<Rightarrow>
          (case e of
             NotFound m \<Rightarrow> Inl (OtherError (''File not found: '' @ p))
           | OtherError m \<Rightarrow> Inl e)
      | StatInfo isFile sz \<Rightarrow>
          if \<not> isFile then Inl (OtherError (''Not a file: '' @ p))
          else if skipLargeFiles os \<and> int sz > maxFileSize os
               then Inl (OtherError (''File too large: '' @ showNat sz @ '' bytes''))
          else Inr ())"

definition jsPercentage :: "nat \<Rightarrow> nat \<Rightarrow> js_number" where
  \<comment> \<open>\<^verbatim>\<open>(bytesRead / stat.size) * 100\<close>; a division by zero gives \<^verbatim>\<open>Infinity\<close> or
      \<^verbatim>\<open>NaN\<close>. Rounding of floating-point numbers is not modelled.\<close>
  "jsPercentage b t =
     (if t = 0 then (if b = 0 then NaN else Infinity)
      else Finite (of_nat b / of_nat t * 100))"

definition progressUpdate :: "string \<Rightarrow> nat \<Rightarrow> nat \<Rightarrow> ProcessUpdate" where
  \<comment> \<open>The object posted inside the read loop.\<close>
  "progressUpdate p nread tot =
     \<lparr> updateType = TypeProgress, updatePath = p,
       updateData = Some (DataProgress
         \<lparr> progressPath = p, bytesRead = nread, totalBytes = tot,
           percentage = jsPercentage nread tot \<rparr>) \<rparr>"

fun readLoop ::
  "ProcessOptions \<Rightarrow> string \<Rightarrow> nat \<Rightarrow> bool \<Rightarrow> ReadStep list \<Rightarrow> string \<Rightarrow> nat \<Rightarrow> int \<Rightarrow>
   FileProcessor \<Rightarrow> (js_error + string) \<times> FileProcessor" where
  \<comment> \<open>The \<^verbatim>\<open>while (true)\<close> of \<^verbatim>\<open>readFileWithProgress\<close>, one iteration per delivered read;
      the arguments after the list are \<^verbatim>\<open>content\<close>, \<^verbatim>\<open>bytesRead\<close> and \<^verbatim>\<open>lastProgress\<close>.
      An exception of the progress post leaves the loop like any other.\<close>
  "readLoop os p tot atEnd [] cont nread lastProgress fp =
     (if atEnd then (Inl (OtherError ''Operation aborted''), fp)
      else (Inr cont, fp))"
| "readLoop os p tot atEnd (s # rest) cont nread lastProgress fp =
     (if abortedBefore s then (Inl (OtherError ''Operation aborted''), fp)
      else (case readResult s of
              ReadThrows e \<Rightarrow> (Inl e, fp)
            | ReadChunk n chunk \<Rightarrow>
                (if nowAfter s - lastProgress \<ge> progressInterval os
                 then (case sendUpdate fp (progressUpdate p (nread + n) tot) of
                         Inl e \<Rightarrow> (Inl e, fp)
                       | Inr fp1 \<Rightarrow>
                           readLoop os p tot atEnd rest (cont @ chunk) (nread + n)
                             (nowAfter s) fp1)
                 else readLoop os p tot atEnd rest (cont @ chunk) (nread + n)
                        lastProgress fp)))"

definition readFileWithProgress ::
  "ProcessOptions \<Rightarrow> AttemptEnv \<Rightarrow> string \<Rightarrow> FileProcessor \<Rightarrow>
   (js_error + string) \<times> FileProcessor" where
  "readFileWithProgress os env p fp =
     (case openResult env of
        OpenThrows e \<Rightarrow> (Inl e, fp)
      | Opened f \<Rightarrow> readLoop os p (statSize f) (abortedAtEnd f) (reads f) [] 0 (openedAt f) fp)"

definition startUpdate :: "string \<Rightarrow> ProcessUpdate" where
  "startUpdate p = \<lparr> updateType = TypeStart, updatePath = p, updateData = None \<rparr>"

definition completeUpdate :: "string \<Rightarrow> string \<Rightarrow> ProcessUpdate" where
  "completeUpdate p cont =
     \<lparr> updateType = TypeComplete, updatePath = p, updateData = Some (DataContent cont) \<rparr>"

definition countProcessed :: "FileProcessor \<Rightarrow> FileProcessor" where
  \<comment> \<open>\<^verbatim>\<open>this.stats.processed++\<close>\<close>
  "countProcessed fp = fp \<lparr> stats := (stats fp) \<lparr> processed := processed (stats fp) + 1 \<rparr> \<rparr>"

definition tryBody ::
  "ProcessOptions \<Rightarrow> AttemptEnv \<Rightarrow> string \<Rightarrow> FileProcessor \<Rightarrow>
   (js_error + string) \<times> FileProcessor" where
  \<comment> \<open>The \<^verbatim>\<open>try\<close> block of \<^verbatim>\<open>processFileWithRetry\<close>: \<open>Inl\<close> is the error it throws,
      be it in the validation, in the read or in a post.\<close>
  "tryBody os env p fp =
     (case validateFile os env p of
        Inl e \<Rightarrow> (Inl e, fp)
      | Inr u \<Rightarrow>
          (case sendUpdate fp (startUpdate p) of
             Inl e \<Rightarrow> (Inl e, fp)
           | Inr fp1 \<Rightarrow>
               (case readFileWithProgress os env p fp1 of
                  (Inl e, fp2) \<Rightarrow> (Inl e, fp2)
                | (Inr cont, fp2) \<Rightarrow>
                    (case sendUpdate (countProcessed fp2) (completeUpdate p cont) of
                       Inl e \<Rightarrow> (Inl e, countProcessed fp2)
                     | Inr fp3 \<Rightarrow> (Inr cont, fp3)))))"

subsection \<open>The retry loop\<close>

text \<open>
  Besides its result and the processor state, the pipeline returns a log of what it did:
  the passes through the \<^verbatim>\<open>try\<close> block (with the value of \<^verbatim>\<open>retryCount\<close> at entry) and
  the \<^verbatim>\<open>delay\<close> calls (with their argument), in the order in which they happen, and the
  time it took.

  The promise of a pipeline is rejected either with the \<^verbatim>\<open>FileError\<close> built after the
  loop, or, when the post of the 'error' update throws, with that exception.
\<close>

datatype LogEntry = Attempt nat | Delay int

record PipelineLog =
  trail :: "LogEntry list"
  elapsed :: int

definition emptyLog :: PipelineLog where
  "emptyLog = \<lparr> trail = [], elapsed = 0 \<rparr>"

definition recordAttempt :: "nat \<Rightarrow> AttemptEnv \<Rightarrow> PipelineLog \<Rightarrow> PipelineLog" where
  "recordAttempt count env lg =
     lg \<lparr> trail := trail lg @ [Attempt count], elapsed := elapsed lg + duration env \<rparr>"

definition recordDelay :: "int \<Rightarrow> PipelineLog \<Rightarrow> PipelineLog" where
  \<comment> \<open>\<^verbatim>\<open>await delay(ms)\<close>; a negative argument does not wait.\<close>
  "recordDelay ms lg = lg \<lparr> trail := trail lg @ [Delay ms], elapsed := elapsed lg + max 0 ms \<rparr>"





datatype Rejection =
    WithFileError FileError    \<comment> \<open>\<^verbatim>\<open>throw fileError\<close>\<close>
  | WithException js_error     \<comment> \<open>the exception of the last \<^verbatim>\<open>sendUpdate\<close>\<close>

definition makeFileError :: "string \<Rightarrow> nat \<Rightarrow> js_error option \<Rightarrow> FileError" where
  "makeFileError p count lastError =
     \<lparr> name = ''FileProcessError'',
       message = (case lastError of
                    Some e \<Rightarrow> errorMessage e
                  | None \<Rightarrow> ''Unknown error''),
       filePath = p, retryCount = count, cause = lastError \<rparr>"

definition errorUpdate :: "string \<Rightarrow> FileError \<Rightarrow> ProcessUpdate" where
  "errorUpdate p e =
     \<lparr> updateType = TypeError, updatePath = p, updateData = Some (DataError e) \<rparr>"

definition countFailed :: "FileProcessor \<Rightarrow> FileProcessor" where
  \<comment> \<open>\<^verbatim>\<open>this.stats.failed++\<close>\<close>
  "countFailed fp = fp \<lparr> stats := (stats fp) \<lparr> failed := failed (stats fp) + 1 \<rparr> \<rparr>"

definition giveUp ::
  "string \<Rightarrow> nat \<Rightarrow> js_error option \<Rightarrow> FileProcessor \<Rightarrow> Rejection \<times> FileProcessor" where
  \<comment> \<open>The code after the \<^verbatim>\<open>while\<close>: build the \<^verbatim>\<open>FileError\<close>, count it, post it, throw
      it.\<close>
  "giveUp p count lastError fp =
     (let fileError = makeFileError p count lastError;
          fp1 = countFailed fp
      in case sendUpdate fp1 (errorUpdate p fileError) of
           Inl e \<Rightarrow> (WithException e, fp1)
         | Inr fp2 \<Rightarrow> (WithFileError fileError, fp2))"

function retryLoop ::
  "ProcessOptions \<Rightarrow> World \<Rightarrow> string \<Rightarrow> nat \<Rightarrow> js_error option \<Rightarrow> PipelineLog \<Rightarrow>
   FileProcessor \<Rightarrow> (Rejection + string) \<times> PipelineLog \<times> FileProcessor" where
  "retryLoop os w p count lastError lg fp =
     (if int count \<le> maxRetries os
      then (let env = w p count;
                lg1 = recordAttempt count env lg
            in case tryBody os env p fp of
                 (Inr cont, fp1) \<Rightarrow> (Inr cont, lg1, fp1)
               | (Inl e, fp1) \<Rightarrow>
                   (let count' = count + 1;
                        lg2 = (if int count' \<le> maxRetries os
                               then recordDelay (retryDelay os * int count') lg1
                               else lg1)
                    in retryLoop os w p count' (Some e) lg2 fp1))
      else (case giveUp p count lastError fp of
              (rejection, fp1) \<Rightarrow> (Inl rejection, lg, fp1)))"
  by pat_completeness auto
termination
  by (relation "measure (\<lambda>(os, w, p, count, lastError, lg, fp).
                   nat (maxRetries os + 1 - int count))") auto

declare retryLoop.simps [simp del]

definition processFileWithRetry ::
  "World \<Rightarrow> string \<Rightarrow> FileProcessor \<Rightarrow> (Rejection + string) \<times> PipelineLog \<times> FileProcessor" where
  "processFileWithRetry w p fp = retryLoop (opts fp) w p 0 None emptyLog fp"

subsection \<open>The generator\<close>

text \<open>
  A promise is represented by the value it settles to and the instant, on a virtual
  clock, at which it settles. The \<^verbatim>\<open>inProgress\<close> map is an association list in insertion
  order: \<^verbatim>\<open>Map.set\<close> on a present key replaces the value in place, on a new key appends
  (\<^const>\<open>AList.update\<close>), and \<^verbatim>\<open>Map.delete\<close> is \<^const>\<open>AList.delete\<close>. A promise that
  \<^verbatim>\<open>Map.set\<close> replaces is referred to by nothing any more, but its pipeline runs on; these
  promises are kept in \<open>replaced\<close>.

  \<^verbatim>\<open>inProgress.set(path, this.processFileWithRetry(path))\<close> stores a promise without a
  handler, and the only handler ever attached is the \<^verbatim>\<open>await\<close> of the first entry of the
  map. The runtime ends the process when, at the end of a turn of its event loop, a
  rejected promise has no handler (an unhandled rejection). So the \<^verbatim>\<open>await\<close> of the first
  entry returns only if none of the other promises, those further down the map and the
  replaced ones, is rejected at an earlier instant than the one at which the awaited
  promise settles. What settles at the same instant as the awaited promise settles in
  the same turn, in which the generator goes on and can still reach the next entries of
  the map. The consumer is taken to ask for the next result as soon as it has received
  one, as a \<^verbatim>\<open>for await\<close> loop with a body that awaits nothing does. The model ends
  when the generator returns: a replaced promise that is rejected in that same turn, or
  later, ends the process after the sequence is complete.

  The pipelines of one run interleave at their \<^verbatim>\<open>await\<close>s. Their only shared effects are
  increments of two counters and posts on the channel; the model applies the effects
  of a pipeline as one block at the moment \<^verbatim>\<open>processFileWithRetry\<close> is called, so the
  order of the posts of different pipelines is not the one of a real run, and when a
  run is cut short the processor holds the effects of every pipeline that was started,
  as if each had run to its end.
\<close>

record Task =
  settled :: "Rejection + string"
  settledAt :: int

record GenState =
  queue :: "string list"
  inProgress :: "(string \<times> Task) list"
  replaced :: "Task list"
  yielded :: "ProcessResult list"
  clock :: int
  processor :: FileProcessor

definition startNext :: "World \<Rightarrow> GenState \<Rightarrow> GenState" where
  \<comment> \<open>The body of the inner \<^verbatim>\<open>while\<close>: \<^verbatim>\<open>queue.shift()\<close>, then \<^verbatim>\<open>inProgress.set\<close>.\<close>
  "startNext w s =
     (case queue s of
        [] \<Rightarrow> s
      | p # rest \<Rightarrow>
          (case processFileWithRetry w p (processor s) of
             (res, lg, fp) \<Rightarrow>
               s \<lparr> queue := rest,
                   inProgress := AList.update p
                       \<lparr> settled = res, settledAt = clock s + elapsed lg \<rparr> (inProgress s),
                   replaced := replaced s @ (case map_of (inProgress s) p of
                                               None \<Rightarrow> []
                                             | Some old \<Rightarrow> [old]),
                   processor := fp \<rparr>))"

definition rejectedBefore :: "int \<Rightarrow> Task \<Rightarrow> bool" where
  "rejectedBefore instant t = (isl (settled t) \<and> settledAt t < instant)"

definition awaitOldest :: "GenState \<Rightarrow> GenState option" where
  \<comment> \<open>The \<^verbatim>\<open>if (inProgress.size > 0)\<close> block: await the first entry of the map, delete
      it, and yield its content unless the promise rejected. \<open>None\<close>: the \<^verbatim>\<open>await\<close> does
      not return, because the process ends on an unhandled rejection.\<close>
  "awaitOldest s =
     (case inProgress s of
        [] \<Rightarrow> Some s
      | (p, promise) # others \<Rightarrow>
          (let instant = max (clock s) (settledAt promise)
           in if list_ex (rejectedBefore instant) (map snd others @ replaced s) then None
              else (let s1 = s \<lparr> clock := instant,
                                 inProgress := AList.delete p (inProgress s) \<rparr>
                    in case settled promise of
                         Inr cont \<Rightarrow>
                           Some (s1 \<lparr> yielded := yielded s1 @ [\<lparr> path = p, content = cont \<rparr>] \<rparr>)
                       | Inl err \<Rightarrow> Some s1)))"

definition canStart :: "GenState \<Rightarrow> bool" where
  \<comment> \<open>The condition of the inner \<^verbatim>\<open>while\<close>.\<close>
  "canStart s =
     (length (queue s) > 0 \<and> int (length (inProgress s)) < maxConcurrent (opts (processor s)))"

datatype Step =
    Next GenState    \<comment> \<open>the loops go on in this state\<close>
  | Finished         \<comment> \<open>the condition of the outer \<^verbatim>\<open>while\<close> fails\<close>
  | Aborted          \<comment> \<open>the process ends on an unhandled rejection\<close>

definition step :: "World \<Rightarrow> GenState \<Rightarrow> Step" where
  \<comment> \<open>One transition of the two nested loops of \<^verbatim>\<open>processFiles\<close>. With nothing to start
      and nothing to await the outer loop runs again on the same state.\<close>
  "step w s =
     (if canStart s then Next (startNext w s)
      else if length (inProgress s) > 0
           then (case awaitOldest s of Some s' \<Rightarrow> Next s' | None \<Rightarrow> Aborted)
      else if length (queue s) > 0 then Next s
      else Finished)"

definition finallyBlock :: "GenState \<Rightarrow> GenState" where
  \<comment> \<open>\<^verbatim>\<open>this.stats.endTime = Date.now(); this.updateChannel.close()\<close>\<close>
  "finallyBlock s =
     s \<lparr> processor := (processor s)
            \<lparr> stats := (stats (processor s)) \<lparr> endTime := Some (clock s) \<rparr>,
              channelClosed := True \<rparr> \<rparr>"

datatype Ending =
    Completed    \<comment> \<open>the generator returned, after its \<^verbatim>\<open>finally\<close> block\<close>
  | Uncaught     \<comment> \<open>the runtime ended the process while the generator was suspended\<close>

record Run =
  ending :: Ending
  states :: "GenState list"

partial_function (option) drive :: "World \<Rightarrow> GenState \<Rightarrow> Run option" where
  \<comment> \<open>How the run of a generator that is consumed to its end goes on from a state: the
      states it goes through, the last one after the \<^verbatim>\<open>finally\<close> block when the generator
      returns, and the one of the last \<^verbatim>\<open>await\<close> when the process ends there; \<open>None\<close> when
      the loop never ends.\<close>
  "drive w s =
     (case step w s of
        Finished \<Rightarrow> Some \<lparr> ending = Completed, states = [s, finallyBlock s] \<rparr>
      | Aborted \<Rightarrow> Some \<lparr> ending = Uncaught, states = [s] \<rparr>
      | Next s' \<Rightarrow>
          Option.bind (drive w s') (\<lambda>r. Some \<lparr> ending = ending r, states = s # states r \<rparr>))"

declare drive.simps [code]

definition initialState :: "FileProcessor \<Rightarrow> int \<Rightarrow> string list \<Rightarrow> GenState" where
  \<comment> \<open>\<^verbatim>\<open>inProgress = new Map()\<close> and \<^verbatim>\<open>queue = [...files]\<close>; \<open>now\<close> is the time of the
      first \<^verbatim>\<open>next()\<close> call.\<close>
  "initialState fp now files =
     \<lparr> queue = files, inProgress = [], replaced = [], yielded = [], clock = now,
       processor = fp \<rparr>"

definition processFiles :: "World \<Rightarrow> FileProcessor \<Rightarrow> int \<Rightarrow> string list \<Rightarrow> Run option" where
  "processFiles w fp now files = drive w (initialState fp now files)"


definition finalProcessor :: "Run \<Rightarrow> FileProcessor" where
  \<comment> \<open>The processor object when the run is over.\<close>
  "finalProcessor r = processor (last (states r))"

section \<open>Notions used in the statements\<close>

subsection \<open>Pattern matcher\<close>

definition isNormalized :: "IgnoreOptions \<Rightarrow> string \<Rightarrow> bool" where
  \<comment> \<open>A string on which none of the steps of \<^const>\<open>normalizePattern\<close> has anything to do.\<close>
  "isNormalized os s =
     (\<not> (truthy (allowNegation os) \<and> startsWith s ''!'') \<and>
      (s \<noteq> [] \<longrightarrow> \<not> isWhiteSpace (hd s) \<and> \<not> isWhiteSpace (last s)) \<and>
      CHR 0x5C \<notin> set s \<and>
      \<not> startsWith s ''./'' \<and> \<not> startsWith s ''/'' \<and>
      \<not> (s \<noteq> [] \<and> last s = CHR ''/''))"

definition lastMatch ::
  "(RegExp \<Rightarrow> string \<Rightarrow> bool) \<Rightarrow> IgnoreRule list \<Rightarrow> string \<Rightarrow> IgnoreRule option" where
  \<comment> \<open>The rule added last among those that accept the string.\<close>
  "lastMatch rx rs s =
     (case filter (\<lambda>r. rx (compiledPattern r) s) (rev rs) of
        [] \<Rightarrow> None
      | r # earlier \<Rightarrow> Some r)"

definition literalTest :: "RegExp \<Rightarrow> string \<Rightarrow> bool" where
  \<comment> \<open>A matching relation for examples: a glob without wildcard characters accepts its
      own text.\<close>
  "literalTest r s = (s = glob r)"

subsection \<open>Processor\<close>


definition outcome :: "FileProcessor \<Rightarrow> World \<Rightarrow> string \<Rightarrow> Rejection + string" where
  \<comment> \<open>What the promise of \<^verbatim>\<open>processFileWithRetry(path)\<close> settles to on this processor.\<close>
  "outcome fp w p = fst (processFileWithRetry w p fp)"

definition successes :: "FileProcessor \<Rightarrow> World \<Rightarrow> string list \<Rightarrow> ProcessResult list" where
  \<comment> \<open>One \<^verbatim>\<open>{ path, content }\<close> for each path of the list whose pipeline resolves.\<close>
  "successes fp w ps =
     concat (map (\<lambda>p. case outcome fp w p of
                         Inl e \<Rightarrow> []
                       | Inr cont \<Rightarrow> [\<lparr> path = p, content = cont \<rparr>]) ps)"

definition quiet :: "FileProcessor \<Rightarrow> bool" where
  \<comment> \<open>Nothing was ever skipped: both counters are 0 in the snapshot and no posted
      update has type 'skip'.\<close>
  "quiet fp =
     (skipped (getStats fp) = 0 \<and> totalSize (getStats fp) = 0 \<and>
      TypeSkip \<notin> updateType ` set (updateChannel fp))"

inductive reaches :: "World \<Rightarrow> GenState \<Rightarrow> GenState \<Rightarrow> bool"
  for w :: World and s :: GenState where
  initial: "reaches w s s"
| after: "reaches w s t \<Longrightarrow> step w t = Next u \<Longrightarrow> reaches w s u"

definition inFlight :: "GenState \<Rightarrow> Task list" where
  \<comment> \<open>The promises of the pipelines that were started and have not settled yet.\<close>
  "inFlight s = filter (\<lambda>t. clock s < settledAt t) (map snd (inProgress s) @ replaced s)"

definition occupancy :: "GenState \<Rightarrow> string list \<times> nat \<times> nat" where
  \<comment> \<open>The pending queue, \<^verbatim>\<open>inProgress.size\<close>, and the number of pipelines in flight.\<close>
  "occupancy s = (queue s, length (inProgress s), length (inFlight s))"


definition consistent :: "FileProcessor \<Rightarrow> World \<Rightarrow> string list \<Rightarrow> GenState \<Rightarrow> bool" where
  "consistent fp0 w files s =
     (opts (processor s) = opts fp0 \<and> channelClosed (processor s) = channelClosed fp0 \<and>
      distinct (map fst (inProgress s) @ queue s) \<and> replaced s = [] \<and>
      (\<forall>e\<in>set (inProgress s). settled (snd e) = outcome fp0 w (fst e)) \<and>
      yielded s @ successes fp0 w (map fst (inProgress s) @ queue s) = successes fp0 w files)"


section \<open>Sample inputs\<close>

definition noSuchFile :: js_error where
  "noSuchFile = NotFound ''No such file or directory (os error 2)''"

definition missingFile :: AttemptEnv where
  "missingFile =
     \<lparr> statResult = StatThrows noSuchFile, openResult = OpenThrows noSuchFile, duration = 1 \<rparr>"

definition textFile :: "string \<Rightarrow> int \<Rightarrow> AttemptEnv" where
  \<comment> \<open>A regular file with the given text, read in one chunk, in the given time.\<close>
  "textFile t ms =
     \<lparr> statResult = StatInfo True (length t),
       openResult = Opened
         \<lparr> statSize = length t, openedAt = 0,
           reads = (if t = [] then []
                    else [\<lparr> abortedBefore = False, readResult = ReadChunk (length t) t,
                            nowAfter = ms \<rparr>]),
           abortedAtEnd = False \<rparr>,
       duration = ms \<rparr>"

definition largeFile :: AttemptEnv where
  \<comment> \<open>A regular file of 200 bytes.\<close>
  "largeFile = textFile (replicate 200 CHR ''z'') 5"

definition timedOutEmptyFile :: AttemptEnv where
  \<comment> \<open>An empty regular file, opened so late that the timer has fired before the first
      read, as with \<^verbatim>\<open>timeout: 0\<close>.\<close>
  "timedOutEmptyFile =
     \<lparr> statResult = StatInfo True 0,
       openResult = Opened \<lparr> statSize = 0, openedAt = 0, reads = [], abortedAtEnd = True \<rparr>,
       duration = 1 \<rparr>"

definition unreadableEmptyFile :: AttemptEnv where
  \<comment> \<open>An empty regular file that the process may not open.\<close>
  "unreadableEmptyFile =
     \<lparr> statResult = StatInfo True 0,
       openResult = OpenThrows (OtherError ''Permission denied (os error 13)''),
       duration = 1 \<rparr>"

definition sizelessFile :: AttemptEnv where
  \<comment> \<open>A file whose \<^verbatim>\<open>stat.size\<close> is 0 although reading it delivers data, as the files
      under /proc do; the read ends 1500 ms after the file was opened.\<close>
  "sizelessFile =
     \<lparr> statResult = StatInfo True 0,
       openResult = Opened
         \<lparr> statSize = 0, openedAt = 0,
           reads = [\<lparr> abortedBefore = False, readResult = ReadChunk 3 ''cpu'',
                     nowAfter = 1500 \<rparr>],
           abortedAtEnd = False \<rparr>,
       duration = 1500 \<rparr>"

definition sampleWorld :: World where
  \<comment> \<open>"a" is slow to read, "b" is fast, "e" is empty, "big" has 200 bytes, "late" is
      empty and timed out, "locked" is empty and unreadable, "proc" has no size, and
      nothing else exists.\<close>
  "sampleWorld p k =
     (if p = ''a'' then textFile ''A'' 900
      else if p = ''b'' then textFile ''B'' 2
      else if p = ''e'' then textFile [] 1
      else if p = ''big'' then largeFile
      else if p = ''late'' then timedOutEmptyFile
      else if p = ''locked'' then unreadableEmptyFile
      else if p = ''proc'' then sizelessFile
      else missingFile)"

definition sampleProcessor :: "int \<Rightarrow> FileProcessor" where
  \<comment> \<open>\<^verbatim>\<open>new FileProcessor({ maxConcurrent: c })\<close> at time 0.\<close>
  "sampleProcessor c = newFileProcessor (DEFAULT_OPTIONS \<lparr> maxConcurrent := c \<rparr>) 0"



definition usedProcessor :: FileProcessor where
  \<comment> \<open>The processor \<^verbatim>\<open>new FileProcessor({ maxConcurrent: 2 })\<close> after
      \<^verbatim>\<open>processFiles(['b'])\<close> was consumed to its end.\<close>
  "usedProcessor =
     (case processFiles sampleWorld (sampleProcessor 2) 0 [''b''] of
        Some r \<Rightarrow> finalProcessor r
      | None \<Rightarrow> sampleProcessor 2)"


definition gitignoreOnly :: "string \<Rightarrow> js_error + string" where
  \<comment> \<open>A directory with a ".gitignore" (one line, "dist") and no other file.\<close>
  "gitignoreOnly p = (if p = ''.gitignore'' then Inr ''dist'' else Inl noSuchFile)"

definition bothIgnoreFiles :: "string \<Rightarrow> js_error + string" where
  \<comment> \<open>A directory with a ".docsignore" (one line, "build") and the same ".gitignore".\<close>
  "bothIgnoreFiles p =
     (if p = ''.docsignore'' then Inr ''build''
      else if p = ''.gitignore'' then Inr ''dist''
      else Inl noSuchFile)"

definition makefileEntry :: WalkEntry where
  "makefileEntry =
     \<lparr> entryName = ''Makefile'', entryPath = ''/repo/Makefile'', entryRelative = ''Makefile'',
       entryStat = Inr 120 \<rparr>"

section \<open>Properties of the pattern matcher\<close>

subsection \<open>Normalization\<close>

lemma trim_unchanged:
  assumes "s \<noteq> [] \<longrightarrow> \<not> isWhiteSpace (hd s) \<and> \<not> isWhiteSpace (last s)"
  shows "trim s = s"
proof (cases s)
  case Nil
  then show ?thesis by (simp add: trim_def)
next
  case (Cons a list)
  with assms have front: "dropWhile isWhiteSpace s = s" by simp
  from Cons have ne: "s \<noteq> []" by simp
  with assms have "\<not> isWhiteSpace (last s)" by blast
  with ne have "\<not> isWhiteSpace (hd (rev s))" by (simp add: hd_rev)
  moreover from ne have "rev s \<noteq> []" by simp
  ultimately have "dropWhile isWhiteSpace (rev s) = rev s"
    by (cases "rev s") auto
  with front show ?thesis by (simp add: trim_def)
qed

lemma backslashToSlash_unchanged: "CHR 0x5C \<notin> set s \<Longrightarrow> backslashToSlash s = s"
  unfolding backslashToSlash_def by (induction s) auto

text \<open>
  Claim C7, as amended. A string in normal form (no leading "!" when negation is
  enabled, no white space at either end, no backslash, no leading "./" or "/", no
  trailing "/") is returned unchanged by the normalization, and without the negation
  flag. Nothing is said about the normal form of an arbitrary string: one pass removes
  at most one leading "!", one leading "./" or "/" and one trailing "/".
\<close>

theorem normalizePattern_fixed_point:
  assumes "isNormalized os s"
  shows "normalizePattern os s = \<lparr> pattern = s, negative = False \<rparr>"
proof -
  from assms have neg: "\<not> (truthy (allowNegation os) \<and> startsWith s ''!'')"
    and t: "trim s = s" and b: "backslashToSlash s = s"
    and l: "removeLeading s = s" and r: "removeTrailingSlash s = s"
    by (auto simp: isNormalized_def trim_unchanged backslashToSlash_unchanged
                   removeLeading_def removeTrailingSlash_def)
  from neg have "(truthy (allowNegation os) \<and> startsWith s ''!'') = False" by blast
  then show ?thesis
    by (auto simp: normalizePattern_def Let_def t b l r)
qed

theorem normalizePattern_fixed_point_witness:
  "isNormalized DEFAULT_IGNORE_OPTIONS ''src/lib'' \<and>
   normalizePattern DEFAULT_IGNORE_OPTIONS ''src/lib'' = \<lparr> pattern = ''src/lib'', negative = False \<rparr>"
proof -
  have h: "isNormalized DEFAULT_IGNORE_OPTIONS ''src/lib''"
    by code_simp
  from h normalizePattern_fixed_point [OF h] show ?thesis by simp
qed

text \<open>
  Claim C7 as stated fails: the normal form of "//a" is "/a", whose normal form is "a".
\<close>

theorem normalizePattern_not_idempotent:
  "pattern (normalizePattern DEFAULT_IGNORE_OPTIONS ''//a'') = ''/a'' \<and>
   pattern (normalizePattern DEFAULT_IGNORE_OPTIONS
              (pattern (normalizePattern DEFAULT_IGNORE_OPTIONS ''//a''))) = ''a''"
  by code_simp

subsection \<open>Last match wins\<close>

lemma options_addPattern [simp]: "options (addPattern ip p) = options ip"
  by (simp add: addPattern_def Let_def)

lemma options_addPatterns [simp]: "options (addPatterns ip ps) = options ip"
  unfolding addPatterns_def by (induction ps arbitrary: ip) auto

lemma normalizePattern_negated:
  "truthy (allowNegation os) \<Longrightarrow>
   normalizePattern os (CHR ''!'' # P) =
     \<lparr> pattern = removeTrailingSlash (removeLeading (backslashToSlash (trim P))),
       negative = True \<rparr>"
  by (simp add: normalizePattern_def startsWith_def)

lemma normalizePattern_plain:
  "\<not> startsWith P ''!'' \<Longrightarrow>
   normalizePattern os P =
     \<lparr> pattern = removeTrailingSlash (removeLeading (backslashToSlash (trim P))),
       negative = False \<rparr>"
  by (simp add: normalizePattern_def)

lemma foldl_lastMatch:
  "foldl (\<lambda>ignored r. if rx (compiledPattern r) s then \<not> isNegation r else ignored) b rs =
     (case lastMatch rx rs s of None \<Rightarrow> b | Some r \<Rightarrow> \<not> isNegation r)"
  by (induction rs arbitrary: b rule: rev_induct) (auto simp: lastMatch_def split: list.splits)

lemma shouldIgnore_lastMatch:
  "shouldIgnore rx ip p =
     (case lastMatch rx (patterns ip) (pattern (normalizePattern (options ip) p)) of
        None \<Rightarrow> False
      | Some r \<Rightarrow> \<not> isNegation r)"
  by (simp add: shouldIgnore_def Let_def foldl_lastMatch)

lemma lastMatch_none:
  "(\<forall>r\<in>set rs. \<not> rx (compiledPattern r) s) \<Longrightarrow> lastMatch rx rs s = None"
  by (simp add: lastMatch_def filter_empty_conv [THEN iffD2])

text \<open>
  Claim C4, as amended. On a matcher with negation enabled (the default), for a pattern
  \<open>P\<close> that does not itself begin with "!" and whose normal form is not empty, and a
  path \<open>p\<close> whose normal form the compiled \<open>P\<close> accepts: after adding \<open>P\<close> and then
  "!" followed by \<open>P\<close> the path is not ignored; after adding them in the other order it
  is ignored. Whatever the options and the rules, the verdict is the opposite of the
  negation flag of the last rule, in the order of addition, that accepts the normalized
  path, and a path that no rule accepts is not ignored.
\<close>

theorem shouldIgnore_last_match_wins:
  assumes "truthy (allowNegation (options ip))"
    and "\<not> startsWith P ''!''"
    and "pattern (normalizePattern (options ip) P) \<noteq> []"
    and "rx (globToRegExp (pattern (normalizePattern (options ip) P)) (ignoreCase (options ip)))
            (pattern (normalizePattern (options ip) p))"
  shows "\<not> shouldIgnore rx (addPatterns ip [P, ''!'' @ P]) p \<and>
         shouldIgnore rx (addPatterns ip [''!'' @ P, P]) p \<and>
         (\<forall>ip' q. shouldIgnore rx ip' q =
              (case lastMatch rx (patterns ip') (pattern (normalizePattern (options ip') q)) of
                 None \<Rightarrow> False
               | Some r \<Rightarrow> \<not> isNegation r)) \<and>
         (\<forall>ip' q. (\<forall>r\<in>set (patterns ip').
                       \<not> rx (compiledPattern r) (pattern (normalizePattern (options ip') q)))
                   \<longrightarrow> \<not> shouldIgnore rx ip' q)"
proof -
  have order: "\<not> shouldIgnore rx (addPatterns ip [P, ''!'' @ P]) p \<and>
               shouldIgnore rx (addPatterns ip [''!'' @ P, P]) p"
    using assms
    by (simp add: shouldIgnore_def addPatterns_def addPattern_def Let_def
                  normalizePattern_negated normalizePattern_plain)
  have none: "\<not> shouldIgnore rx ip' q"
    if "\<forall>r\<in>set (patterns ip'). \<not> rx (compiledPattern r) (pattern (normalizePattern (options ip') q))"
    for ip' q
    using that by (simp add: shouldIgnore_lastMatch lastMatch_none)
  from order none show ?thesis
    using shouldIgnore_lastMatch [of rx] by blast
qed

theorem shouldIgnore_last_match_wins_witness:
  "\<not> shouldIgnore literalTest (addPatterns (newIgnorePattern noOptions) [''build'', ''!build''])
        ''./build/'' \<and>
   shouldIgnore literalTest (addPatterns (newIgnorePattern noOptions) [''!build'', ''build''])
        ''./build/'' \<and>
   \<not> shouldIgnore literalTest (addPatterns (newIgnorePattern noOptions) [''build''])
        ''src/main.ts''"
proof -
  let ?ip = "newIgnorePattern noOptions"
  have n: "pattern (normalizePattern (options ?ip) ''build'') = ''build''"
    by code_simp
  have n': "pattern (normalizePattern (options ?ip) ''./build/'') = ''build''"
    by code_simp
  have h1: "truthy (allowNegation (options ?ip))"
    by code_simp
  have h2: "\<not> startsWith ''build'' ''!''" by code_simp
  have h3: "pattern (normalizePattern (options ?ip) ''build'') \<noteq> []"
    unfolding n by simp
  have h4: "literalTest
              (globToRegExp (pattern (normalizePattern (options ?ip) ''build''))
                 (ignoreCase (options ?ip)))
              (pattern (normalizePattern (options ?ip) ''./build/''))"
    unfolding n n' by (simp add: literalTest_def globToRegExp_def)
  note w = shouldIgnore_last_match_wins
         [where ip = ?ip and P = "''build''" and rx = literalTest and p = "''./build/''",
          OF h1 h2 h3 h4]
  let ?one = "addPatterns (newIgnorePattern noOptions) [''build'']"
  have "\<forall>r\<in>set (patterns ?one).
          \<not> literalTest (compiledPattern r)
               (pattern (normalizePattern (options ?one) ''src/main.ts''))"
    by code_simp
  with w [THEN conjunct2, THEN conjunct2, THEN conjunct2, THEN spec, of ?one,
          THEN spec, of "''src/main.ts''"]
  have "\<not> shouldIgnore literalTest ?one ''src/main.ts''" by (rule mp)
  with w [THEN conjunct1] w [THEN conjunct2, THEN conjunct1] show ?thesis by simp
qed

text \<open>
  Claim C4 as stated fails on a matcher built with \<^verbatim>\<open>allowNegation: false\<close>, where "!a" is
  an ordinary pattern: "a" stays ignored after "a" and "!a" were added in that order.
  With the default options it fails for the pattern "!a", which is itself a negation:
  both "!a" and "!!a" become negated rules, so "a" is not ignored in either order.
\<close>

theorem shouldIgnore_order_counterexample:
  "literalTest (globToRegExp
       (pattern (normalizePattern (mergeOptions (noOptions \<lparr> allowNegation := Some False \<rparr>)) ''a''))
       (ignoreCase (mergeOptions (noOptions \<lparr> allowNegation := Some False \<rparr>))))
     (pattern (normalizePattern (mergeOptions (noOptions \<lparr> allowNegation := Some False \<rparr>)) ''a'')) \<and>
   shouldIgnore literalTest
     (addPatterns (newIgnorePattern (noOptions \<lparr> allowNegation := Some False \<rparr>)) [''a'', ''!a''])
     ''a'' \<and>
   \<not> shouldIgnore literalTest
     (addPatterns (newIgnorePattern noOptions) [''!!a'', ''!a'']) ''a''"
  by code_simp

subsection \<open>Loading\<close>

text \<open>
  Claim C6 at its failing input. With \<^verbatim>\<open>useGitignore: true\<close> and one extra pattern "tmp":
  when both files exist the rules are "tmp", then "build" from the primary file, then
  "dist" from ".gitignore"; when only ".gitignore" exists the result holds "tmp" alone,
  because ".gitignore" is read inside the \<^verbatim>\<open>try\<close> block that reading the primary file
  has already left.
\<close>

theorem loadFromFile_missing_primary_drops_gitignore:
  "map (glob \<circ> compiledPattern)
     (patterns (loadFromFile bothIgnoreFiles ''.docsignore''
        (noOptions \<lparr> useGitignore := Some True, extraPatterns := Some [''tmp''] \<rparr>)))
     = [''tmp'', ''build'', ''dist''] \<and>
   map (glob \<circ> compiledPattern)
     (patterns (loadFromFile gitignoreOnly ''.docsignore''
        (noOptions \<lparr> useGitignore := Some True, extraPatterns := Some [''tmp''] \<rparr>)))
     = [''tmp'']"
  by code_simp

section \<open>Properties of the scanner\<close>

text \<open>
  Claim C8 at its failing input. A name without "." is split into the one-element array
  of the name itself, so \<^verbatim>\<open>pop()\<close> returns the whole name and the fallback to the empty
  string is never reached: "Makefile" gets the extension "makefile", passes the
  allow-list ["makefile"], and is reported with that extension.
\<close>

theorem extension_of_name_without_dot:
  "extensionOf ''Makefile'' = ''makefile'' \<and>
   scanDirectory literalTest gitignoreOnly [makefileEntry] [''makefile''] ''.docsignore'' =
     Inr [\<lparr> scannedPath = ''/repo/Makefile'', relativePath = ''Makefile'', sizeBytes = 120,
            extension = ''makefile'' \<rparr>] \<and>
   filterFiles literalTest (newIgnorePattern noOptions) [makefileEntry] [''makefile''] =
     [''/repo/Makefile'']"
  by code_simp

section \<open>Properties of one pipeline\<close>

subsection \<open>Posts and reads\<close>

lemma sendUpdate_open:
  "\<not> channelClosed fp \<Longrightarrow> sendUpdate fp u = Inr (fp \<lparr> updateChannel := updateChannel fp @ [u] \<rparr>)"
  by (simp add: sendUpdate_def)

lemma sendUpdate_closed: "channelClosed fp \<Longrightarrow> sendUpdate fp u = Inl channelClosedError"
  by (simp add: sendUpdate_def)

lemma readLoop_closed_step:
  "channelClosed fp \<Longrightarrow>
   readLoop os p tot atEnd (s # rest) c n lp fp =
     (if abortedBefore s then (Inl (OtherError ''Operation aborted''), fp)
      else (case readResult s of
              ReadThrows e \<Rightarrow> (Inl e, fp)
            | ReadChunk k chunk \<Rightarrow>
                (if nowAfter s - lp \<ge> progressInterval os
                 then (Inl channelClosedError, fp)
                 else readLoop os p tot atEnd rest (c @ chunk) (n + k) lp fp)))"
  by (simp add: sendUpdate_closed split: ReadResult.splits)

lemma readLoop_open_step:
  "\<not> channelClosed fp \<Longrightarrow>
   readLoop os p tot atEnd (s # rest) c n lp fp =
     (if abortedBefore s then (Inl (OtherError ''Operation aborted''), fp)
      else (case readResult s of
              ReadThrows e \<Rightarrow> (Inl e, fp)
            | ReadChunk k chunk \<Rightarrow>
                (if nowAfter s - lp \<ge> progressInterval os
                 then readLoop os p tot atEnd rest (c @ chunk) (n + k) (nowAfter s)
                        (fp \<lparr> updateChannel := updateChannel fp @ [progressUpdate p (n + k) tot] \<rparr>)
                 else readLoop os p tot atEnd rest (c @ chunk) (n + k) lp fp)))"
  by (simp add: sendUpdate_open split: ReadResult.splits)

lemma readLoop_fst:
  "channelClosed fp' = channelClosed fp \<Longrightarrow>
   fst (readLoop os p tot atEnd rs c n lp fp') = fst (readLoop os p tot atEnd rs c n lp fp)"
proof (induction rs arbitrary: c n lp fp fp')
  case Nil
  then show ?case by simp
next
  case (Cons s rest)
  show ?case
  proof (cases "channelClosed fp")
    case True
    with Cons.prems have cl: "channelClosed fp'" by simp
    have ih: "fst (readLoop os p tot atEnd rest c' n' lp' fp') =
              fst (readLoop os p tot atEnd rest c' n' lp' fp)" for c' n' lp'
      by (rule Cons.IH) (rule Cons.prems)
    show ?thesis
      apply (subst readLoop_closed_step [OF cl])
      apply (subst readLoop_closed_step [OF True])
      apply (cases "abortedBefore s")
       apply simp
      apply (cases "readResult s")
       apply simp
      apply (simp add: ih)
      done
  next
    case False
    with Cons.prems have op: "\<not> channelClosed fp'" by simp
    have ih: "fst (readLoop os p tot atEnd rest c' n' lp' fp') =
              fst (readLoop os p tot atEnd rest c' n' lp' fp)" for c' n' lp'
      by (rule Cons.IH) (rule Cons.prems)
    have ih': "fst (readLoop os p tot atEnd rest c' n' lp'
                 (fp' \<lparr> updateChannel := updateChannel fp' @ [u] \<rparr>)) =
          fst (readLoop os p tot atEnd rest c' n' lp'
                 (fp \<lparr> updateChannel := updateChannel fp @ [u] \<rparr>))" for c' n' lp' u
      by (rule Cons.IH) (simp add: Cons.prems)
    show ?thesis
      apply (subst readLoop_open_step [OF op])
      apply (subst readLoop_open_step [OF False])
      apply (cases "abortedBefore s")
       apply simp
      apply (cases "readResult s")
       apply simp
      apply (simp add: ih ih')
      done
  qed
qed

lemma readFileWithProgress_fst:
  "channelClosed fp' = channelClosed fp \<Longrightarrow>
   fst (readFileWithProgress os env p fp') = fst (readFileWithProgress os env p fp)"
proof (cases "openResult env")
  case (OpenThrows e)
  then show ?thesis by (simp add: readFileWithProgress_def)
next
  case (Opened f)
  assume "channelClosed fp' = channelClosed fp"
  from readLoop_fst [OF this] Opened show ?thesis by (simp add: readFileWithProgress_def)
qed

lemma readLoop_keeps:
  "opts (snd (readLoop os p tot atEnd rs c n lp fp)) = opts fp \<and>
   stats (snd (readLoop os p tot atEnd rs c n lp fp)) = stats fp \<and>
   channelClosed (snd (readLoop os p tot atEnd rs c n lp fp)) = channelClosed fp \<and>
   prefix (updateChannel fp) (updateChannel (snd (readLoop os p tot atEnd rs c n lp fp))) \<and>
   (quiet fp \<longrightarrow> quiet (snd (readLoop os p tot atEnd rs c n lp fp)))"
proof (induction rs arbitrary: c n lp fp)
  case Nil
  then show ?case by simp
next
  case (Cons s rest)
  show ?case
  proof (cases "channelClosed fp")
    case True
    have ih: "opts (snd (readLoop os p tot atEnd rest c' n' lp' fp)) = opts fp \<and>
       stats (snd (readLoop os p tot atEnd rest c' n' lp' fp)) = stats fp \<and>
       channelClosed (snd (readLoop os p tot atEnd rest c' n' lp' fp)) = channelClosed fp \<and>
       prefix (updateChannel fp) (updateChannel (snd (readLoop os p tot atEnd rest c' n' lp' fp))) \<and>
       (quiet fp \<longrightarrow> quiet (snd (readLoop os p tot atEnd rest c' n' lp' fp)))" for c' n' lp'
      by (rule Cons.IH)
    show ?thesis
      apply (subst (1 2 3 4 5) readLoop_closed_step [OF True])
      apply (cases "abortedBefore s")
       apply simp
      apply (cases "readResult s")
       apply simp
      apply (simp add: ih)
      done
  next
    case False
    let ?post = "\<lambda>u. fp \<lparr> updateChannel := updateChannel fp @ [u] \<rparr>"
    have ih: "opts (snd (readLoop os p tot atEnd rest c' n' lp' fp)) = opts fp \<and>
       stats (snd (readLoop os p tot atEnd rest c' n' lp' fp)) = stats fp \<and>
       channelClosed (snd (readLoop os p tot atEnd rest c' n' lp' fp)) = channelClosed fp \<and>
       prefix (updateChannel fp) (updateChannel (snd (readLoop os p tot atEnd rest c' n' lp' fp))) \<and>
       (quiet fp \<longrightarrow> quiet (snd (readLoop os p tot atEnd rest c' n' lp' fp)))" for c' n' lp'
      by (rule Cons.IH)
    have ih': "opts (snd (readLoop os p tot atEnd rest c' n' lp' (?post (progressUpdate p m tot)))) = opts fp \<and>
       stats (snd (readLoop os p tot atEnd rest c' n' lp' (?post (progressUpdate p m tot)))) = stats fp \<and>
       channelClosed (snd (readLoop os p tot atEnd rest c' n' lp' (?post (progressUpdate p m tot))))
         = channelClosed fp \<and>
       prefix (updateChannel fp)
         (updateChannel (snd (readLoop os p tot atEnd rest c' n' lp' (?post (progressUpdate p m tot))))) \<and>
       (quiet fp \<longrightarrow> quiet (snd (readLoop os p tot atEnd rest c' n' lp' (?post (progressUpdate p m tot)))))"
      for c' n' lp' m
    proof -
      let ?fq = "?post (progressUpdate p m tot)"
      note i = Cons.IH [of c' n' lp' ?fq]
      have pre: "prefix (updateChannel fp) (updateChannel ?fq)" by simp
      have q: "quiet fp \<longrightarrow> quiet ?fq"
        by (simp add: quiet_def getStats_def progressUpdate_def)
      from i pre have "prefix (updateChannel fp)
          (updateChannel (snd (readLoop os p tot atEnd rest c' n' lp' ?fq)))"
        by (blast intro: prefix_order.order_trans)
      with i q show ?thesis by simp
    qed
    show ?thesis
      apply (subst (1 2 3 4 5) readLoop_open_step [OF False])
      apply (cases "abortedBefore s")
       apply simp
      apply (cases "readResult s")
       apply simp
      apply (simp add: ih ih')
      done
  qed
qed

lemma readFileWithProgress_keeps:
  "opts (snd (readFileWithProgress os env p fp)) = opts fp \<and>
   stats (snd (readFileWithProgress os env p fp)) = stats fp \<and>
   channelClosed (snd (readFileWithProgress os env p fp)) = channelClosed fp \<and>
   prefix (updateChannel fp) (updateChannel (snd (readFileWithProgress os env p fp))) \<and>
   (quiet fp \<longrightarrow> quiet (snd (readFileWithProgress os env p fp)))"
  using readLoop_keeps by (simp add: readFileWithProgress_def split: OpenResult.splits)

subsection \<open>One attempt\<close>

lemma tryBody_closed:
  "channelClosed fp \<Longrightarrow>
   tryBody os env p fp =
     (case validateFile os env p of
        Inl e \<Rightarrow> (Inl e, fp)
      | Inr u \<Rightarrow> (Inl channelClosedError, fp))"
  by (simp add: tryBody_def sendUpdate_closed split: sum.splits)

lemma tryBody_open:
  assumes "\<not> channelClosed fp"
  shows "tryBody os env p fp =
     (case validateFile os env p of
        Inl e \<Rightarrow> (Inl e, fp)
      | Inr u \<Rightarrow>
          (case readFileWithProgress os env p
                  (fp \<lparr> updateChannel := updateChannel fp @ [startUpdate p] \<rparr>) of
             (Inl e, fp2) \<Rightarrow> (Inl e, fp2)
           | (Inr cont, fp2) \<Rightarrow>
               (Inr cont,
                (countProcessed fp2)
                  \<lparr> updateChannel := updateChannel fp2 @ [completeUpdate p cont] \<rparr>)))"
proof (cases "validateFile os env p")
  case (Inl e)
  then show ?thesis by (simp add: tryBody_def)
next
  case (Inr u)
  let ?fp1 = "fp \<lparr> updateChannel := updateChannel fp @ [startUpdate p] \<rparr>"
  obtain r fp2 where rd: "readFileWithProgress os env p ?fp1 = (r, fp2)"
    by (cases "readFileWithProgress os env p ?fp1")
  from readFileWithProgress_keeps [of os env p ?fp1] rd assms
  have op: "\<not> channelClosed (countProcessed fp2)" by (simp add: countProcessed_def)
  show ?thesis
    using Inr rd sendUpdate_open [OF assms, of "startUpdate p"] sendUpdate_open [OF op]
    by (cases r) (simp_all add: tryBody_def countProcessed_def)
qed

lemma tryBody_fst:
  assumes "channelClosed fp' = channelClosed fp"
  shows "fst (tryBody os env p fp') = fst (tryBody os env p fp)"
proof (cases "channelClosed fp")
  case True
  with assms have "channelClosed fp'" by simp
  with True show ?thesis by (simp add: tryBody_closed split: sum.splits)
next
  case False
  with assms have op: "\<not> channelClosed fp'" by simp
  let ?a = "fp \<lparr> updateChannel := updateChannel fp @ [startUpdate p] \<rparr>"
  let ?b = "fp' \<lparr> updateChannel := updateChannel fp' @ [startUpdate p] \<rparr>"
  have "channelClosed ?b = channelClosed ?a" using assms by simp
  from readFileWithProgress_fst [OF this, of os env p]
  show ?thesis
    unfolding tryBody_open [OF False] tryBody_open [OF op]
    by (cases "readFileWithProgress os env p ?a"; cases "readFileWithProgress os env p ?b")
       (auto split: sum.splits)
qed

lemma tryBody_keeps:
  "opts (snd (tryBody os env p fp)) = opts fp \<and>
   failed (stats (snd (tryBody os env p fp))) = failed (stats fp) \<and>
   skipped (stats (snd (tryBody os env p fp))) = skipped (stats fp) \<and>
   totalSize (stats (snd (tryBody os env p fp))) = totalSize (stats fp) \<and>
   channelClosed (snd (tryBody os env p fp)) = channelClosed fp \<and>
   prefix (updateChannel fp) (updateChannel (snd (tryBody os env p fp))) \<and>
   (quiet fp \<longrightarrow> quiet (snd (tryBody os env p fp)))"
proof (cases "channelClosed fp")
  case True
  then show ?thesis by (simp add: tryBody_closed split: sum.splits)
next
  case False
  let ?fp1 = "fp \<lparr> updateChannel := updateChannel fp @ [startUpdate p] \<rparr>"
  obtain r fp2 where rd: "readFileWithProgress os env p ?fp1 = (r, fp2)"
    by (cases "readFileWithProgress os env p ?fp1")
  from readFileWithProgress_keeps [of os env p ?fp1] rd
  have o: "opts fp2 = opts fp" and s: "stats fp2 = stats fp"
    and cc: "channelClosed fp2 = channelClosed fp"
    and pre: "prefix (updateChannel ?fp1) (updateChannel fp2)"
    and q: "quiet ?fp1 \<longrightarrow> quiet fp2"
    by simp_all
  have "prefix (updateChannel fp) (updateChannel ?fp1)" by simp
  from this pre have pre': "prefix (updateChannel fp) (updateChannel fp2)"
    by (rule prefix_order.order_trans)
  have q1: "quiet fp \<Longrightarrow> quiet ?fp1"
    by (simp add: quiet_def getStats_def startUpdate_def)
  show ?thesis
  proof (cases "validateFile os env p")
    case (Inl e)
    then show ?thesis by (simp add: tryBody_open [OF False])
  next
    case (Inr u)
    show ?thesis
    proof (cases r)
      case (Inl e)
      with Inr rd o s cc pre' q q1 show ?thesis by (auto simp: tryBody_open [OF False])
    next
      case inner: (Inr cont)
      let ?fp4 = "(countProcessed fp2)
                    \<lparr> updateChannel := updateChannel fp2 @ [completeUpdate p cont] \<rparr>"
      have tb: "tryBody os env p fp = (Inr cont, ?fp4)"
        using Inr rd inner by (simp add: tryBody_open [OF False])
      have "prefix (updateChannel fp2) (updateChannel ?fp4)" by simp
      with pre' have "prefix (updateChannel fp) (updateChannel ?fp4)"
        by (rule prefix_order.order_trans)
      moreover have "quiet fp \<longrightarrow> quiet ?fp4"
        using q q1 by (auto simp: quiet_def getStats_def countProcessed_def completeUpdate_def)
      ultimately show ?thesis using tb o s cc by (simp add: countProcessed_def)
    qed
  qed
qed


subsection \<open>Retry and backoff\<close>

lemma giveUp_open:
  "\<not> channelClosed fp \<Longrightarrow>
   giveUp p c le fp =
     (WithFileError (makeFileError p c le),
      (countFailed fp) \<lparr> updateChannel := updateChannel fp @
                           [errorUpdate p (makeFileError p c le)] \<rparr>)"
  by (simp add: giveUp_def Let_def sendUpdate_def countFailed_def)

lemma giveUp_closed:
  "channelClosed fp \<Longrightarrow> giveUp p c le fp = (WithException channelClosedError, countFailed fp)"
  by (simp add: giveUp_def Let_def sendUpdate_def countFailed_def)

lemma giveUp_effects:
  "opts (snd (giveUp p c le fp)) = opts fp \<and>
   channelClosed (snd (giveUp p c le fp)) = channelClosed fp \<and>
   failed (stats (snd (giveUp p c le fp))) = failed (stats fp) + 1 \<and>
   skipped (stats (snd (giveUp p c le fp))) = skipped (stats fp) \<and>
   totalSize (stats (snd (giveUp p c le fp))) = totalSize (stats fp) \<and>
   processed (stats (snd (giveUp p c le fp))) = processed (stats fp) \<and>
   prefix (updateChannel fp) (updateChannel (snd (giveUp p c le fp))) \<and>
   (quiet fp \<longrightarrow> quiet (snd (giveUp p c le fp))) \<and>
   (case fst (giveUp p c le fp) of
      WithFileError e \<Rightarrow>
        \<not> channelClosed fp \<and> e = makeFileError p c le \<and>
        updateChannel (snd (giveUp p c le fp)) = updateChannel fp @ [errorUpdate p e]
    | WithException x \<Rightarrow>
        channelClosed fp \<and> x = channelClosedError \<and>
        updateChannel (snd (giveUp p c le fp)) = updateChannel fp)"
  by (cases "channelClosed fp")
     (simp_all add: giveUp_open giveUp_closed countFailed_def quiet_def getStats_def
                    errorUpdate_def)

lemma makeFileError_fields [simp]:
  "filePath (makeFileError p c le) = p" "retryCount (makeFileError p c le) = c"
  by (simp_all add: makeFileError_def)

lemma retryLoop_give_up:
  "\<not> int count \<le> maxRetries os \<Longrightarrow>
   retryLoop os w p count lastError lg fp =
     (Inl (fst (giveUp p count lastError fp)), lg, snd (giveUp p count lastError fp))"
  by (simp add: retryLoop.simps [of os w p count] split: prod.splits)

lemma retryLoop_retry:
  assumes "int count \<le> maxRetries os" and "tryBody os (w p count) p fp = (Inl e, fq)"
  shows "retryLoop os w p count lastError lg fp =
           retryLoop os w p (count + 1) (Some e)
             (if int (count + 1) \<le> maxRetries os
              then recordDelay (retryDelay os * int (count + 1))
                     (recordAttempt count (w p count) lg)
              else recordAttempt count (w p count) lg)
             fq"
  using assms by (simp add: retryLoop.simps [of os w p count] Let_def)

lemma retryLoop_success:
  assumes "int count \<le> maxRetries os" and "tryBody os (w p count) p fp = (Inr cont, fq)"
  shows "retryLoop os w p count lastError lg fp =
           (Inr cont, recordAttempt count (w p count) lg, fq)"
  using assms by (simp add: retryLoop.simps [of os w p count] Let_def)







subsection \<open>An empty file\<close>

text \<open>
  Claim C9, as amended. For a regular file of zero bytes that passes validation, that
  the runtime opens, whose first read returns \<^verbatim>\<open>null\<close>, and whose attempt is not cancelled
  by the timeout before that read, on a processor whose channel is open: the attempt
  succeeds with the empty content, counts the file as processed, and posts exactly two
  updates, one 'start' and then one 'complete'. No 'progress' update is posted, so the
  percentage \<^verbatim>\<open>bytesRead / stat.size\<close> is never computed. When this is the first attempt of
  a pipeline with \<open>maxRetries \<ge> 0\<close>, the pipeline resolves after that single attempt.
\<close>

theorem zero_byte_file_is_read_without_progress:
  assumes "statResult env = StatInfo True 0"
    and "validateFile os env p = Inr ()"
    and "openResult env = Opened f"
    and "reads f = []"
    and "\<not> abortedAtEnd f"
    and "\<not> channelClosed fp"
  shows "tryBody os env p fp =
           (Inr [],
            (countProcessed fp)
              \<lparr> updateChannel := updateChannel fp @ [startUpdate p, completeUpdate p []] \<rparr>) \<and>
         (opts fp = os \<and> 0 \<le> maxRetries os \<and> w p 0 = env \<longrightarrow>
            (\<exists>lg fp'. processFileWithRetry w p fp = (Inr [], lg, fp') \<and> trail lg = [Attempt 0] \<and>
               map updateType (drop (length (updateChannel fp)) (updateChannel fp')) =
                 [TypeStart, TypeComplete]))"
proof -
  let ?fp' = "(countProcessed fp)
                \<lparr> updateChannel := updateChannel fp @ [startUpdate p, completeUpdate p []] \<rparr>"
  have tb: "tryBody os env p fp = (Inr [], ?fp')"
    using assms
    by (simp add: tryBody_open readFileWithProgress_def countProcessed_def)
  have "\<exists>lg fp'. processFileWithRetry w p fp = (Inr [], lg, fp') \<and> trail lg = [Attempt 0] \<and>
               map updateType (drop (length (updateChannel fp)) (updateChannel fp')) =
                 [TypeStart, TypeComplete]"
    if "opts fp = os" "0 \<le> maxRetries os" "w p 0 = env"
  proof -
    from that tb have "tryBody os (w p 0) p fp = (Inr [], ?fp')" by simp
    from retryLoop_success
           [where os = os and w = w and p = p and count = 0 and fp = fp and cont = "[]"
              and fq = ?fp' and lastError = None and lg = emptyLog, OF _ this] that
    have "processFileWithRetry w p fp = (Inr [], recordAttempt 0 env emptyLog, ?fp')"
      by (simp add: processFileWithRetry_def)
    then show ?thesis
      by (simp add: recordAttempt_def emptyLog_def countProcessed_def startUpdate_def
                    completeUpdate_def)
  qed
  with tb show ?thesis by blast
qed

theorem zero_byte_file_is_read_without_progress_witness:
  "tryBody (opts (sampleProcessor 2)) (textFile [] 1) ''e'' (sampleProcessor 2) =
     (Inr [],
      (countProcessed (sampleProcessor 2))
        \<lparr> updateChannel := [startUpdate ''e'', completeUpdate ''e'' []] \<rparr>) \<and>
   (\<exists>lg fp'. processFileWithRetry sampleWorld ''e'' (sampleProcessor 2) = (Inr [], lg, fp') \<and>
      trail lg = [Attempt 0] \<and>
      map updateType (updateChannel fp') = [TypeStart, TypeComplete])"
proof -
  let ?f = "\<lparr> statSize = 0, openedAt = 0, reads = [], abortedAtEnd = False \<rparr>"
  let ?fp = "sampleProcessor 2"
  have h1: "statResult (textFile [] 1) = StatInfo True 0" by (simp add: textFile_def)
  have h2: "validateFile (opts ?fp) (textFile [] 1) ''e'' = Inr ()"
    by (simp add: validateFile_def textFile_def sampleProcessor_def newFileProcessor_def
                  DEFAULT_OPTIONS_def)
  have h3: "openResult (textFile [] 1) = Opened ?f" by (simp add: textFile_def)
  have h4: "reads ?f = []" and h5: "\<not> abortedAtEnd ?f" by simp_all
  have h6: "\<not> channelClosed ?fp" by (simp add: sampleProcessor_def newFileProcessor_def)
  note inst = zero_byte_file_is_read_without_progress
         [where env = "textFile [] 1" and os = "opts ?fp" and p = "''e''" and f = ?f
            and fp = ?fp and w = sampleWorld, OF h1 h2 h3 h4 h5 h6]
  have g: "opts ?fp = opts ?fp \<and> 0 \<le> maxRetries (opts ?fp) \<and> sampleWorld ''e'' 0 = textFile [] 1"
    by (simp add: sampleProcessor_def newFileProcessor_def DEFAULT_OPTIONS_def sampleWorld_def)
  have c: "updateChannel ?fp = []"
    by (simp add: sampleProcessor_def newFileProcessor_def)
  from inst [THEN conjunct1] inst [THEN conjunct2, THEN mp, OF g] show ?thesis
    by (simp add: c)
qed

text \<open>
  Claim C9 as stated fails for zero-byte files that exist and pass validation. The
  file "late" is opened when the timer has already fired: the test of
  \<^verbatim>\<open>signal.aborted\<close> throws in each attempt, the pipeline is rejected and no 'complete'
  update is posted. The file "locked" cannot be opened, and the pipeline is rejected.
  On a processor whose channel an earlier run has closed, the pipeline of the empty
  file "e" is rejected too, and so it is on a processor built with \<^verbatim>\<open>maxRetries: -1\<close>,
  whose retry loop is never entered. And the file "proc", whose size is reported as 0
  while its read delivers three bytes, is read with a 'progress' update whose
  percentage is 3 / 0 * 100.
\<close>

theorem zero_byte_file_counterexample:
  "statResult (sampleWorld ''late'' 0) = StatInfo True 0 \<and>
   validateFile (opts (sampleProcessor 2)) (sampleWorld ''late'' 0) ''late'' = Inr () \<and>
   fst (tryBody (opts (sampleProcessor 2)) (sampleWorld ''late'' 0) ''late'' (sampleProcessor 2)) =
     Inl (OtherError ''Operation aborted'') \<and>
   isl (fst (processFileWithRetry sampleWorld ''late'' (sampleProcessor 2))) \<and>
   map updateType
     (updateChannel (snd (snd (processFileWithRetry sampleWorld ''late'' (sampleProcessor 2))))) =
     [TypeStart, TypeStart, TypeStart, TypeStart, TypeError] \<and>
   statResult (sampleWorld ''locked'' 0) = StatInfo True 0 \<and>
   validateFile (opts (sampleProcessor 2)) (sampleWorld ''locked'' 0) ''locked'' = Inr () \<and>
   isl (fst (processFileWithRetry sampleWorld ''locked'' (sampleProcessor 2))) \<and>
   statResult (sampleWorld ''e'' 0) = StatInfo True 0 \<and>
   validateFile (opts usedProcessor) (sampleWorld ''e'' 0) ''e'' = Inr () \<and>
   fst (processFileWithRetry sampleWorld ''e'' usedProcessor) =
     Inl (WithException channelClosedError) \<and>
   validateFile (DEFAULT_OPTIONS \<lparr> maxRetries := - 1 \<rparr>) (sampleWorld ''e'' 0) ''e'' = Inr () \<and>
   isl (fst (processFileWithRetry sampleWorld ''e''
               (newFileProcessor (DEFAULT_OPTIONS \<lparr> maxRetries := - 1 \<rparr>) 0))) \<and>
   statResult (sampleWorld ''proc'' 0) = StatInfo True 0 \<and>
   validateFile (opts (sampleProcessor 2)) (sampleWorld ''proc'' 0) ''proc'' = Inr () \<and>
   updateChannel
     (snd (tryBody (opts (sampleProcessor 2)) (sampleWorld ''proc'' 0) ''proc'' (sampleProcessor 2))) =
     [startUpdate ''proc'', progressUpdate ''proc'' 3 0, completeUpdate ''proc'' ''cpu''] \<and>
   percentage \<lparr> progressPath = ''proc'', bytesRead = 3, totalBytes = 0,
                percentage = jsPercentage 3 0 \<rparr> = Infinity"
  by code_simp

subsection \<open>What a pipeline changes in the processor\<close>

lemma retryLoop_effects:
  assumes "count \<le> nat (maxRetries os + 1)"
  shows "opts (snd (snd (retryLoop os w p count le lg fp))) = opts fp \<and>
   channelClosed (snd (snd (retryLoop os w p count le lg fp))) = channelClosed fp \<and>
   prefix (updateChannel fp) (updateChannel (snd (snd (retryLoop os w p count le lg fp)))) \<and>
   (quiet fp \<longrightarrow> quiet (snd (snd (retryLoop os w p count le lg fp)))) \<and>
   (case fst (retryLoop os w p count le lg fp) of
      Inl r \<Rightarrow>
        failed (stats (snd (snd (retryLoop os w p count le lg fp)))) = failed (stats fp) + 1 \<and>
        (case r of
           WithFileError e \<Rightarrow>
             \<not> channelClosed fp \<and>
             errorUpdate p e \<in> set (updateChannel (snd (snd (retryLoop os w p count le lg fp)))) \<and>
             filePath e = p \<and> retryCount e = nat (maxRetries os + 1)
         | WithException x \<Rightarrow> channelClosed fp \<and> x = channelClosedError)
    | Inr cont \<Rightarrow>
        \<not> channelClosed fp \<and>
        failed (stats (snd (snd (retryLoop os w p count le lg fp)))) = failed (stats fp))"
  using assms
proof (induction "nat (maxRetries os + 1) - count" arbitrary: count le lg fp)
  case 0
  then have over: "\<not> int count \<le> maxRetries os" and c: "count = nat (maxRetries os + 1)"
    by linarith+
  obtain r fq where g: "giveUp p count le fp = (r, fq)" by (cases "giveUp p count le fp")
  from giveUp_effects [of p count le fp] g
  have e: "opts fq = opts fp" "channelClosed fq = channelClosed fp"
    "failed (stats fq) = failed (stats fp) + 1"
    "prefix (updateChannel fp) (updateChannel fq)" "quiet fp \<longrightarrow> quiet fq"
    by simp_all
  from giveUp_effects [of p count le fp] g
  have e': "case r of
       WithFileError e \<Rightarrow>
         \<not> channelClosed fp \<and> e = makeFileError p count le \<and>
         updateChannel fq = updateChannel fp @ [errorUpdate p e]
     | WithException x \<Rightarrow>
         channelClosed fp \<and> x = channelClosedError \<and> updateChannel fq = updateChannel fp"
    by (cases r) simp_all
  have rl: "retryLoop os w p count le lg fp = (Inl r, lg, fq)"
    using retryLoop_give_up [OF over, of w p le lg fp] g by simp
  show ?case
  proof (cases r)
    case (WithFileError e')
    with e e' c show ?thesis unfolding rl by simp
  next
    case (WithException x)
    with e e' c show ?thesis unfolding rl by simp
  qed
next
  case (Suc d)
  then have le: "int count \<le> maxRetries os" by linarith
  obtain r fp1 where tb: "tryBody os (w p count) p fp = (r, fp1)"
    by (cases "tryBody os (w p count) p fp")
  from tryBody_keeps [of os "w p count" p fp] tb
  have o: "opts fp1 = opts fp" and f: "failed (stats fp1) = failed (stats fp)"
    and cc: "channelClosed fp1 = channelClosed fp"
    and pre: "prefix (updateChannel fp) (updateChannel fp1)"
    and q: "quiet fp \<longrightarrow> quiet fp1" by simp_all
  show ?case
  proof (cases r)
    case (Inr cont)
    with tb have t: "tryBody os (w p count) p fp = (Inr cont, fp1)" by simp
    have op: "\<not> channelClosed fp"
    proof
      assume "channelClosed fp"
      from tryBody_closed [OF this, of os "w p count" p] t show False
        by (simp split: sum.splits)
    qed
    from retryLoop_success
           [where os = os and w = w and p = p and count = count and fp = fp and cont = cont
              and fq = fp1 and lastError = le and lg = lg, OF \<open>int count \<le> maxRetries os\<close> t]
    show ?thesis using o f cc pre q op by simp
  next
    case (Inl e)
    with tb have tbe: "tryBody os (w p count) p fp = (Inl e, fp1)" by simp
    let ?lg2 = "if int (count + 1) \<le> maxRetries os
                then recordDelay (retryDelay os * int (count + 1))
                       (recordAttempt count (w p count) lg)
                else recordAttempt count (w p count) lg"
    note unfold = retryLoop_retry
      [where os = os and w = w and p = p and count = count and fp = fp and e = e and fq = fp1
         and lastError = le and lg = lg, OF \<open>int count \<le> maxRetries os\<close> tbe]
    have d: "d = nat (maxRetries os + 1) - (count + 1)" using Suc.hyps(2) by linarith
    have c': "count + 1 \<le> nat (maxRetries os + 1)" using \<open>int count \<le> maxRetries os\<close> by linarith
    let ?R = "retryLoop os w p (count + 1) (Some e) ?lg2 fp1"
    obtain res lgR fpR where R: "?R = (res, lgR, fpR)" by (cases ?R)
    from Suc.hyps(1) [OF d c', of "Some e" ?lg2 fp1] R
    have i: "opts fpR = opts fp1" "channelClosed fpR = channelClosed fp1"
      "prefix (updateChannel fp1) (updateChannel fpR)" "quiet fp1 \<longrightarrow> quiet fpR"
      by simp_all
    from Suc.hyps(1) [OF d c', of "Some e" ?lg2 fp1] R
    have j: "case res of
         Inl r \<Rightarrow>
           failed (stats fpR) = failed (stats fp1) + 1 \<and>
           (case r of
              WithFileError e \<Rightarrow>
                \<not> channelClosed fp1 \<and> errorUpdate p e \<in> set (updateChannel fpR) \<and>
                filePath e = p \<and> retryCount e = nat (maxRetries os + 1)
            | WithException x \<Rightarrow> channelClosed fp1 \<and> x = channelClosedError)
       | Inr cont \<Rightarrow> \<not> channelClosed fp1 \<and> failed (stats fpR) = failed (stats fp1)"
      by (auto split: sum.splits Rejection.splits)
    from pre i(3) have pre': "prefix (updateChannel fp) (updateChannel fpR)"
      by (rule prefix_order.order_trans)
    from q i(4) have q': "quiet fp \<longrightarrow> quiet fpR" by blast
    show ?thesis
    proof (cases res)
      case (Inr cont)
      with i j o f cc pre' q' show ?thesis unfolding unfold R by simp
    next
      case inner: (Inl r)
      show ?thesis
      proof (cases r)
        case (WithFileError e')
        with inner i j o f cc pre' q' show ?thesis unfolding unfold R by simp
      next
        case (WithException x)
        with inner i j o f cc pre' q' show ?thesis unfolding unfold R by simp
      qed
    qed
  qed
qed

lemma retryLoop_fst:
  assumes "channelClosed fp' = channelClosed fp"
  shows "fst (retryLoop os w p count le lg' fp') = fst (retryLoop os w p count le lg fp)"
  using assms
proof (induction "nat (maxRetries os + 1) - count" arbitrary: count le lg lg' fp fp')
  case 0
  show ?case
  proof (cases "int count \<le> maxRetries os")
    case True
    with 0 show ?thesis by linarith
  next
    case False
    show ?thesis
      unfolding retryLoop_give_up [OF False]
      using "0.prems" by (cases "channelClosed fp") (simp_all add: giveUp_open giveUp_closed)
  qed
next
  case (Suc d)
  show ?case
  proof (cases "int count \<le> maxRetries os")
    case False
    show ?thesis
      unfolding retryLoop_give_up [OF False]
      using Suc.prems by (cases "channelClosed fp") (simp_all add: giveUp_open giveUp_closed)
  next
    case True
    obtain r fp1 where tb: "tryBody os (w p count) p fp = (r, fp1)"
      by (cases "tryBody os (w p count) p fp")
    obtain r' fp1' where tb': "tryBody os (w p count) p fp' = (r', fp1')"
      by (cases "tryBody os (w p count) p fp'")
    have rr: "r' = r"
      using tryBody_fst [OF Suc.prems, of os "w p count" p] tb tb' by simp
    have cc: "channelClosed fp1' = channelClosed fp1"
      using tryBody_keeps [of os "w p count" p fp] tryBody_keeps [of os "w p count" p fp']
            tb tb' Suc.prems by simp
    show ?thesis
    proof (cases r)
      case (Inr cont)
      from retryLoop_success
             [where os = os and w = w and p = p and count = count and fp = fp and cont = cont
                and fq = fp1 and lastError = le and lg = lg, OF True]
           retryLoop_success
             [where os = os and w = w and p = p and count = count and fp = fp' and cont = cont
                and fq = fp1' and lastError = le and lg = lg', OF True]
           tb tb' rr Inr
      show ?thesis by simp
    next
      case (Inl e)
      let ?l = "\<lambda>g. if int (count + 1) \<le> maxRetries os
                    then recordDelay (retryDelay os * int (count + 1))
                           (recordAttempt count (w p count) g)
                    else recordAttempt count (w p count) g"
      from tb Inl have t1: "tryBody os (w p count) p fp = (Inl e, fp1)" by simp
      from tb' rr Inl have t2: "tryBody os (w p count) p fp' = (Inl e, fp1')" by simp
      note u = retryLoop_retry
        [where os = os and w = w and p = p and count = count and fp = fp and e = e and fq = fp1
           and lastError = le and lg = lg, OF True t1]
      note u' = retryLoop_retry
        [where os = os and w = w and p = p and count = count and fp = fp' and e = e
           and fq = fp1' and lastError = le and lg = lg', OF True t2]
      have d: "d = nat (maxRetries os + 1) - (count + 1)" using Suc.hyps(2) by linarith
      from Suc.hyps(1) [OF d cc, of "Some e" "?l lg'" "?l lg"]
      show ?thesis unfolding u u' .
    qed
  qed
qed

lemma outcome_cong:
  assumes "opts fp' = opts fp" and "channelClosed fp' = channelClosed fp"
  shows "outcome fp' w p = outcome fp w p"
  unfolding outcome_def processFileWithRetry_def assms(1)
  by (rule retryLoop_fst [OF assms(2)])

lemma pipeline_effects:
  "opts (snd (snd (processFileWithRetry w p fp))) = opts fp \<and>
   channelClosed (snd (snd (processFileWithRetry w p fp))) = channelClosed fp \<and>
   prefix (updateChannel fp) (updateChannel (snd (snd (processFileWithRetry w p fp)))) \<and>
   (quiet fp \<longrightarrow> quiet (snd (snd (processFileWithRetry w p fp)))) \<and>
   (case outcome fp w p of
      Inl r \<Rightarrow>
        failed (stats (snd (snd (processFileWithRetry w p fp)))) = failed (stats fp) + 1 \<and>
        (case r of
           WithFileError e \<Rightarrow>
             \<not> channelClosed fp \<and>
             errorUpdate p e \<in> set (updateChannel (snd (snd (processFileWithRetry w p fp)))) \<and>
             filePath e = p \<and> retryCount e = nat (maxRetries (opts fp) + 1)
         | WithException x \<Rightarrow> channelClosed fp \<and> x = channelClosedError)
    | Inr cont \<Rightarrow>
        \<not> channelClosed fp \<and>
        failed (stats (snd (snd (processFileWithRetry w p fp)))) = failed (stats fp))"
  using retryLoop_effects [of 0 "opts fp" w p None emptyLog fp]
  unfolding processFileWithRetry_def outcome_def by simp


section \<open>Properties of the generator\<close>

subsection \<open>The transitions\<close>

lemma startNext_fields:
  assumes "queue s = p # rest"
  shows "queue (startNext w s) = rest"
    and "yielded (startNext w s) = yielded s"
    and "clock (startNext w s) = clock s"
    and "processor (startNext w s) = snd (snd (processFileWithRetry w p (processor s)))"
    and "\<exists>tk. inProgress (startNext w s) = AList.update p tk (inProgress s) \<and>
              settled tk = outcome (processor s) w p"
    and "replaced (startNext w s) =
           replaced s @ (case map_of (inProgress s) p of None \<Rightarrow> [] | Some old \<Rightarrow> [old])"
  using assms by (auto simp: startNext_def outcome_def split: prod.splits)

lemma awaitOldest_fields:
  assumes "inProgress s = (p, tk) # others" and "awaitOldest s = Some s'"
  shows "queue s' = queue s"
    and "processor s' = processor s"
    and "replaced s' = replaced s"
    and "inProgress s' = AList.delete p others"
    and "yielded s' =
           yielded s @ (case settled tk of
                          Inl e \<Rightarrow> []
                        | Inr cont \<Rightarrow> [\<lparr> path = p, content = cont \<rparr>])"
    and "clock s' = max (clock s) (settledAt tk)"
  using assms by (auto simp: awaitOldest_def Let_def split: sum.splits if_splits)


lemma step_cases:
  assumes "step w s = Next s'"
  obtains (start) p rest where "canStart s" "queue s = p # rest" "s' = startNext w s"
  | (await) p tk others where
      "\<not> canStart s" "inProgress s = (p, tk) # others" "awaitOldest s = Some s'"
  | (spin) "\<not> canStart s" "inProgress s = []" "queue s \<noteq> []" "s' = s"
proof (cases "canStart s")
  case True
  then obtain p rest where "queue s = p # rest" by (cases "queue s") (auto simp: canStart_def)
  with True assms start show ?thesis by (simp add: step_def)
next
  case False
  show ?thesis
  proof (cases "inProgress s")
    case Nil
    with False assms spin show ?thesis by (auto simp: step_def split: if_splits)
  next
    case (Cons e others)
    obtain p tk where "e = (p, tk)" by (cases e)
    with Cons False assms await show ?thesis
      by (auto simp: step_def split: option.splits)
  qed
qed



lemma step_processor:
  assumes "step w s = Next s'"
  shows "opts (processor s') = opts (processor s) \<and>
         channelClosed (processor s') = channelClosed (processor s)"
  using assms
proof (cases rule: step_cases)
  case (start p rest)
  with startNext_fields(4) [OF start(2), of w] pipeline_effects [of w p "processor s"]
  show ?thesis by simp
next
  case (await p tk others)
  with awaitOldest_fields(2) [OF await(2,3)] show ?thesis by simp
next
  case spin
  then show ?thesis by simp
qed

lemma length_update_bound: "length (AList.update k v al) \<le> Suc (length al)"
  by (induction al) auto

lemma length_delete_bound: "length (AList.delete k al) \<le> length al"
  by (simp add: AList.delete_eq)

lemma update_fresh: "k \<notin> fst ` set al \<Longrightarrow> AList.update k v al = al @ [(k, v)]"
  by (induction al) auto

lemma map_of_fresh: "k \<notin> fst ` set al \<Longrightarrow> map_of al k = None"
  by (simp add: map_of_eq_None_iff)


subsection \<open>Runs\<close>







lemma processor_reaches:
  assumes "reaches w s t"
  shows "opts (processor t) = opts (processor s) \<and>
         channelClosed (processor t) = channelClosed (processor s)"
  using assms by (induction rule: reaches.induct) (auto dest: step_processor)


subsection \<open>Invariants\<close>

lemma successes_Nil [simp]: "successes fp w [] = []"
  by (simp add: successes_def)

lemma successes_append [simp]:
  "successes fp w (xs @ ys) = successes fp w xs @ successes fp w ys"
  by (simp add: successes_def)

lemma successes_Cons:
  "successes fp w (p # ps) =
     (case outcome fp w p of Inl e \<Rightarrow> [] | Inr cont \<Rightarrow> [\<lparr> path = p, content = cont \<rparr>])
     @ successes fp w ps"
  by (simp add: successes_def)

lemma path_successes:
  "map path (successes fp w ps) = filter (\<lambda>p. \<not> isl (outcome fp w p)) ps"
  by (induction ps) (auto simp: successes_Cons split: sum.splits)

lemma consistent_step:
  assumes c: "consistent fp0 w files s" and st: "step w s = Next s'"
  shows "consistent fp0 w files s'"
  using st
proof (cases rule: step_cases)
  case (start p rest)
  from c have o: "opts (processor s) = opts fp0"
    and cc: "channelClosed (processor s) = channelClosed fp0"
    and d: "distinct (map fst (inProgress s) @ queue s)"
    and r: "replaced s = []"
    and a: "\<forall>e\<in>set (inProgress s). settled (snd e) = outcome fp0 w (fst e)"
    and y: "yielded s @ successes fp0 w (map fst (inProgress s) @ queue s) = successes fp0 w files"
    by (simp_all add: consistent_def)
  from d start(2) have fresh: "p \<notin> fst ` set (inProgress s)" by auto
  from startNext_fields(5) [OF start(2), of w] outcome_cong [OF o cc, of w p] obtain tk where
    ip: "inProgress (startNext w s) = AList.update p tk (inProgress s)"
    and tk: "settled tk = outcome fp0 w p" by auto
  from ip fresh have ip': "inProgress s' = inProgress s @ [(p, tk)]"
    using start(3) by (simp add: update_fresh)
  have q': "queue s' = rest" using start startNext_fields(1) by simp
  have y': "yielded s' = yielded s" using start startNext_fields(2) by simp
  have r': "replaced s' = []"
    using start(3) startNext_fields(6) [OF start(2), of w] r map_of_fresh [OF fresh] by simp
  have o': "opts (processor s') = opts fp0" "channelClosed (processor s') = channelClosed fp0"
    using step_processor [OF st] o cc by simp_all
  show ?thesis
    unfolding consistent_def
    using o' ip' q' y' r' d a y tk start(2) by auto
next
  case (await p tk others)
  from c have o: "opts (processor s) = opts fp0"
    and cc: "channelClosed (processor s) = channelClosed fp0"
    and d: "distinct (map fst (inProgress s) @ queue s)"
    and r: "replaced s = []"
    and a: "\<forall>e\<in>set (inProgress s). settled (snd e) = outcome fp0 w (fst e)"
    and y: "yielded s @ successes fp0 w (map fst (inProgress s) @ queue s) = successes fp0 w files"
    by (simp_all add: consistent_def)
  from d await(2) have fresh: "p \<notin> fst ` set others" by auto
  have ip': "inProgress s' = others"
    using awaitOldest_fields(4) [OF await(2,3)] fresh by simp
  have q': "queue s' = queue s" using awaitOldest_fields(1) [OF await(2,3)] by simp
  have r': "replaced s' = []" using awaitOldest_fields(3) [OF await(2,3)] r by simp
  have tk: "settled tk = outcome fp0 w p" using a await(2) by simp
  have y': "yielded s' = yielded s @
       (case outcome fp0 w p of Inl e \<Rightarrow> [] | Inr cont \<Rightarrow> [\<lparr> path = p, content = cont \<rparr>])"
    using awaitOldest_fields(5) [OF await(2,3)] tk by simp
  have o': "opts (processor s') = opts fp0" "channelClosed (processor s') = channelClosed fp0"
    using step_processor [OF st] o cc by simp_all
  show ?thesis
    unfolding consistent_def
    using o' ip' q' y' r' d a y await(2) by (auto simp: successes_Cons)
next
  case spin
  with c show ?thesis by simp
qed

lemma consistent_initial:
  "distinct files \<Longrightarrow> consistent fp w files (initialState fp now files)"
  by (simp add: consistent_def initialState_def)

lemma consistent_reaches:
  "reaches w s t \<Longrightarrow> consistent fp0 w files s \<Longrightarrow> consistent fp0 w files t"
  by (induction rule: reaches.induct) (auto intro: consistent_step)







lemma cap_step:
  assumes c: "int (length (inProgress s)) \<le> maxConcurrent (opts (processor s))"
    and st: "step w s = Next s'"
  shows "int (length (inProgress s')) \<le> maxConcurrent (opts (processor s'))"
  using st
proof (cases rule: step_cases)
  case (start p rest)
  from startNext_fields(5) [OF start(2), of w] obtain tk where
    ip: "inProgress (startNext w s) = AList.update p tk (inProgress s)" by blast
  from start(1) have "int (length (inProgress s)) < maxConcurrent (opts (processor s))"
    by (simp add: canStart_def)
  with length_update_bound [of p tk "inProgress s"] ip start(3) step_processor [OF st]
  show ?thesis by simp
next
  case (await p tk others)
  with c awaitOldest_fields(2,4) [OF await(2,3)] length_delete_bound [of p others]
  show ?thesis by simp
next
  case spin
  with c show ?thesis by simp
qed

lemma cap_reaches:
  "reaches w s t \<Longrightarrow> int (length (inProgress s)) \<le> maxConcurrent (opts (processor s)) \<Longrightarrow>
   int (length (inProgress t)) \<le> maxConcurrent (opts (processor t))"
  by (induction rule: reaches.induct) (auto intro: cap_step)








subsection \<open>Runs that come to their end\<close>





subsection \<open>The end of a run\<close>



subsection \<open>Order of the results\<close>



subsection \<open>What the consumer receives\<close>




subsection \<open>The concurrency cap\<close>

lemma refill:
  assumes c: "consistent fp0 w files t"
    and cap: "int (length (inProgress t)) \<le> maxConcurrent (opts fp0)"
    and busy: "\<not> canStart t" "queue t \<noteq> []" "awaitOldest t = Some t'" "inProgress t \<noteq> []"
  shows "step w t = Next t' \<and> step w t' = Next (startNext w t') \<and>
         queue (startNext w t') = tl (queue t) \<and>
         int (length (inProgress (startNext w t'))) = maxConcurrent (opts fp0)"
proof -
  from c have o: "opts (processor t) = opts fp0"
    and d: "distinct (map fst (inProgress t) @ queue t)"
    by (simp_all add: consistent_def)
  from busy(4) obtain p tk others where ip: "inProgress t = (p, tk) # others"
    by (cases "inProgress t") auto
  from busy(2) obtain x rest where q: "queue t = x # rest" by (cases "queue t") auto
  from busy(1,2) cap o have full: "int (length (inProgress t)) = maxConcurrent (opts fp0)"
    by (simp add: canStart_def)
  have s1: "step w t = Next t'"
    using busy(1,3,4) by (simp add: step_def)
  from d ip have "p \<notin> fst ` set others" by auto
  with awaitOldest_fields(4) [OF ip busy(3)] have ip': "inProgress t' = others"
    by simp
  have q': "queue t' = x # rest" using awaitOldest_fields(1) [OF ip busy(3)] q by simp
  have o': "opts (processor t') = opts fp0"
    using awaitOldest_fields(2) [OF ip busy(3)] o by simp
  from full ip ip' have less: "int (length (inProgress t')) = maxConcurrent (opts fp0) - 1"
    by simp
  then have cs: "canStart t'" using q' o' by (simp add: canStart_def)
  then have s2: "step w t' = Next (startNext w t')" by (simp add: step_def)
  from d ip q have "x \<notin> fst ` set others" by auto
  with startNext_fields(5) [OF q', of w] ip'
  obtain tk' where "inProgress (startNext w t') = others @ [(x, tk')]"
    by (auto simp: update_fresh)
  with less ip' have "int (length (inProgress (startNext w t'))) = maxConcurrent (opts fp0)"
    by simp
  with s1 s2 startNext_fields(1) [OF q', of w] q show ?thesis by simp
qed

text \<open>
  With an input list without repetitions the cap is kept: in every state that a run
  reaches, the pipelines in flight are among the entries of the \<^verbatim>\<open>inProgress\<close> map, and
  the map holds at most \<open>C\<close> entries; and when the oldest task is awaited and removed
  while the queue is not empty, the next step starts the pipeline of the path at the
  head of the queue, and the map then holds \<open>C\<close> entries again.
\<close>

lemma distinct_paths_keep_the_cap:
  assumes "1 \<le> maxConcurrent (opts fp)" and "distinct files"
    and "reaches w (initialState fp now files) t"
  shows "int (length (inFlight t)) \<le> int (length (inProgress t)) \<and>
         int (length (inProgress t)) \<le> maxConcurrent (opts fp) \<and>
         (\<forall>t'. \<not> canStart t \<and> queue t \<noteq> [] \<and> awaitOldest t = Some t' \<and> inProgress t \<noteq> [] \<longrightarrow>
            step w t = Next t' \<and> step w t' = Next (startNext w t') \<and>
            queue (startNext w t') = tl (queue t) \<and>
            int (length (inProgress (startNext w t'))) = maxConcurrent (opts fp))"
proof -
  let ?s0 = "initialState fp now files"
  have s0: "int (length (inProgress ?s0)) \<le> maxConcurrent (opts (processor ?s0))"
    using assms(1) by (simp add: initialState_def)
  have cap: "int (length (inProgress t)) \<le> maxConcurrent (opts fp)"
    using cap_reaches [OF assms(3) s0] processor_reaches [OF assms(3)]
    by (simp add: initialState_def)
  note con = consistent_reaches [OF assms(3) consistent_initial [OF assms(2)]]
  then have "replaced t = []" by (simp add: consistent_def)
  then have "length (inFlight t) \<le> length (inProgress t)"
    using length_filter_le [of "\<lambda>k. clock t < settledAt k" "map snd (inProgress t)"]
    by (simp add: inFlight_def)
  with cap refill [OF con cap] show ?thesis by simp
qed

text \<open>
  Claim C5 fails on the code when a path is repeated in the input, because the
  in-flight collection is a map keyed by path. With a cap of 2 and five times the input
  "a", every \<^verbatim>\<open>inProgress.set\<close> replaces the entry of "a": the map never holds more than
  one entry, the inner loop goes on, and five pipelines are in flight at once. With the
  inputs "a", "b", "b", the two slots are taken by "a" and "b"; when "a" completes the
  queue still holds "b", and the pipeline that is then started for it replaces the
  entry of the first "b": the map holds one entry, not two. The lists give, for the
  successive states of the two runs, the queue, the size of the map, and the number of
  pipelines in flight.
\<close>

theorem repeated_paths_break_the_cap:
  "maxConcurrent (opts (sampleProcessor 2)) = 2 \<and>
   map_option (\<lambda>r. map occupancy (states r))
     (processFiles sampleWorld (sampleProcessor 2) 0 [''a'', ''a'', ''a'', ''a'', ''a'']) =
   Some [([''a'', ''a'', ''a'', ''a'', ''a''], 0, 0), ([''a'', ''a'', ''a'', ''a''], 1, 1),
         ([''a'', ''a'', ''a''], 1, 2), ([''a'', ''a''], 1, 3), ([''a''], 1, 4), ([], 1, 5),
         ([], 0, 0), ([], 0, 0)] \<and>
   map_option (\<lambda>r. map occupancy (states r))
     (processFiles sampleWorld (sampleProcessor 2) 0 [''a'', ''b'', ''b'']) =
   Some [([''a'', ''b'', ''b''], 0, 0), ([''b'', ''b''], 1, 1), ([''b''], 2, 2), ([''b''], 1, 0),
         ([], 1, 1), ([], 0, 0), ([], 0, 0)]"
  by code_simp

subsection \<open>Nothing is ever skipped\<close>



end
